theory Spec2Isabelle
  imports Main "HOL-Library.Sublist"
begin

section \<open>Python values, strings and dictionaries\<close>

text \<open>
  The agent is driven by a JSON configuration that Python holds as nested \<^verbatim>\<open>dict\<close>s.
  A dictionary is modelled as an association list in insertion order (Python dictionaries
  iterate in insertion order, and \<^verbatim>\<open>_substitute_variables\<close> depends on that order).
  Texts are \<^typ>\<open>string\<close>: a character stands for the code point of the same number, so
  the texts are those over the code points below 256, and the case and whitespace
  functions below are Python's on these code points.  Context values are the JSON
  scalars; numbers are integers.
\<close>

type_synonym 'v dict = "(string \<times> 'v) list"

definition keys :: "'v dict \<Rightarrow> string list" where
  "keys d = map fst d"

definition has_key :: "string \<Rightarrow> 'v dict \<Rightarrow> bool" where
  \<comment> \<open>\<^verbatim>\<open>k in d\<close>\<close>
  "has_key k d = (k \<in> set (keys d))"

definition lookup :: "'v dict \<Rightarrow> string \<Rightarrow> 'v option" where
  \<comment> \<open>\<^verbatim>\<open>d[k]\<close>; \<open>None\<close> is the \<^verbatim>\<open>KeyError\<close>\<close>
  "lookup d k = map_of d k"

fun dict_set :: "string \<Rightarrow> 'v \<Rightarrow> 'v dict \<Rightarrow> 'v dict" where
  \<comment> \<open>\<^verbatim>\<open>d[k] = v\<close>: an existing key keeps its position, a new key goes last\<close>
  "dict_set k v [] = [(k, v)]"
| "dict_set k v (p # ps) = (if fst p = k then (k, v) # ps else p # dict_set k v ps)"

definition dict_update :: "'v dict \<Rightarrow> 'v dict \<Rightarrow> 'v dict" where
  \<comment> \<open>\<^verbatim>\<open>d.update(other)\<close>\<close>
  "dict_update d other = fold (\<lambda>(k, v) acc. dict_set k v acc) other d"

datatype pyval = VStr string | VInt int | VBool bool | VNone

fun digit_char :: "nat \<Rightarrow> char" where
  "digit_char n = char_of (48 + n)"

fun str_nat :: "nat \<Rightarrow> string" where
  "str_nat n = (if n < 10 then [digit_char n] else str_nat (n div 10) @ [digit_char (n mod 10)])"

declare str_nat.simps [simp del]

fun py_str :: "pyval \<Rightarrow> string" where
  \<comment> \<open>\<^verbatim>\<open>str(value)\<close>\<close>
  "py_str (VStr s) = s"
| "py_str (VInt i) = (if i < 0 then CHR ''-'' # str_nat (nat (- i)) else str_nat (nat i))"
| "py_str (VBool b) = (if b then ''True'' else ''False'')"
| "py_str VNone = ''None''"

definition lower_char :: "char \<Rightarrow> char" where
  \<comment> \<open>the letters with a lower case: \<open>A\<close> to \<open>Z\<close>, and the code points 0xC0 to 0xDE
      but for the multiplication sign 0xD7; each lower case is 32 further\<close>
  "lower_char c =
     (let n = (of_char c :: nat) in
      if (65 \<le> n \<and> n \<le> 90) \<or> (192 \<le> n \<and> n \<le> 222 \<and> n \<noteq> 215)
      then char_of (n + 32) else c)"

definition lower :: "string \<Rightarrow> string" where
  \<comment> \<open>\<^verbatim>\<open>s.lower()\<close>\<close>
  "lower s = map lower_char s"

definition isspace :: "char \<Rightarrow> bool" where
  \<comment> \<open>the code points that \<^verbatim>\<open>str.split()\<close> treats as separators: 0x09 to 0x0D,
      0x1C to 0x20, the next-line control 0x85 and the no-break space 0xA0\<close>
  "isspace c =
     (let n = (of_char c :: nat) in
      (9 \<le> n \<and> n \<le> 13) \<or> (28 \<le> n \<and> n \<le> 32) \<or> n = 133 \<or> n = 160)"

fun split_from :: "string \<Rightarrow> string \<Rightarrow> string list" where
  \<comment> \<open>the token read so far, then the rest of the text\<close>
  "split_from cur [] = (if cur = [] then [] else [cur])"
| "split_from cur (c # cs) =
     (if isspace c then (if cur = [] then split_from [] cs else cur # split_from [] cs)
      else split_from (cur @ [c]) cs)"

definition split :: "string \<Rightarrow> string list" where
  \<comment> \<open>\<^verbatim>\<open>s.split()\<close>: maximal runs of non-whitespace characters\<close>
  "split s = split_from [] s"

fun str_contains :: "string \<Rightarrow> string \<Rightarrow> bool" where
  \<comment> \<open>\<^verbatim>\<open>k in s\<close> on two strings\<close>
  "str_contains k [] = (k = [])"
| "str_contains k (c # cs) = (prefix k (c # cs) \<or> str_contains k cs)"

fun replace :: "string \<Rightarrow> string \<Rightarrow> string \<Rightarrow> string" where
  \<comment> \<open>\<^verbatim>\<open>text.replace(old, new)\<close>: leftmost occurrences, not overlapping;
      an empty \<open>old\<close> matches before every character and at the end\<close>
  "replace old new [] = (if old = [] then new else [])"
| "replace old new (c # cs) =
     (if old = [] then new @ c # replace old new cs
      else if prefix old (c # cs) then new @ replace old new (drop (length old - 1) cs)
      else c # replace old new cs)"

section \<open>Variable substitution\<close>

definition marker :: "string \<Rightarrow> string" where
  \<comment> \<open>the f-string of line 339: two opening braces, the key, two closing braces\<close>
  "marker key = ''{{'' @ key @ ''}}''"

fun substitute_variables :: "string \<Rightarrow> pyval dict \<Rightarrow> string" where
  \<comment> \<open>\<^verbatim>\<open>for key, value in context.items(): text = text.replace(marker, str(value))\<close>\<close>
  "substitute_variables text [] = text"
| "substitute_variables text ((key, value) # rest) =
     substitute_variables (replace (marker key) (py_str value) text) rest"


section \<open>The configuration document\<close>

text \<open>
  The configuration is the \<^verbatim>\<open>dict\<close> that \<^verbatim>\<open>json.load\<close> returns.  Each JSON object with a
  fixed set of keys is a record whose fields are options: \<open>None\<close> is the absent key, so
  that \<^verbatim>\<open>key in d\<close> and the \<^verbatim>\<open>KeyError\<close> of \<^verbatim>\<open>d[key]\<close> are both visible.  The settings
  sections and \<^verbatim>\<open>agent_config\<close>, of which only the keys are ever inspected, stay
  dictionaries.  The key \<^verbatim>\<open>id\<close> of a stage is the field \<open>ident\<close>.
\<close>

record transition =
  stage_id :: "string option"
  condition :: "string option"
  priority :: "int option"

record stage =
  ident :: "string option"
  name :: "string option"
  description :: "string option"
  greeting :: "string option"
  prompt :: "string option"
  completion_criteria :: "string option"
  context_updates :: "pyval dict option"
  next_stages :: "transition list option"

record settings =
  llm_settings :: "pyval dict option"
  stt_settings :: "pyval dict option"
  tts_settings :: "pyval dict option"

record flow_section =
  start_stage :: "string option"
  stages :: "stage dict option"

record config =
  global_settings :: "settings option"
  agent_config :: "pyval dict option"
  flow :: "flow_section option"

section \<open>schema\_validation.py\<close>

text \<open>
  Every validation function returns \<open>Inr ()\<close> when it returns normally and \<open>Inl msg\<close>
  when it raises \<^verbatim>\<open>ValueError(msg)\<close>.
\<close>

definition quoted :: "string \<Rightarrow> string" where
  \<comment> \<open>a text between single quotes, as the messages print stage ids\<close>
  "quoted s = CHR 0x27 # s @ [CHR 0x27]"

definition has_all :: "string list \<Rightarrow> 'v dict \<Rightarrow> bool" where
  \<comment> \<open>\<^verbatim>\<open>all(key in d for key in ks)\<close>\<close>
  "has_all ks d = list_all (\<lambda>k. has_key k d) ks"

definition validate_global_settings :: "settings \<Rightarrow> string + unit" where
  "validate_global_settings gs =
     (case llm_settings gs of
        None \<Rightarrow> Inl ''Missing llm_settings in global_settings''
      | Some llm \<Rightarrow>
     (case stt_settings gs of
        None \<Rightarrow> Inl ''Missing stt_settings in global_settings''
      | Some stt \<Rightarrow>
     (case tts_settings gs of
        None \<Rightarrow> Inl ''Missing tts_settings in global_settings''
      | Some tts \<Rightarrow>
        if \<not> has_all [''provider'', ''model'', ''temperature''] llm
          then Inl ''LLM settings missing required fields''
        else if \<not> has_all [''provider'', ''model'', ''language''] stt
          then Inl ''STT settings missing required fields''
        else if \<not> has_all [''provider'', ''model'', ''voice''] tts
          then Inl ''TTS settings missing required fields''
        else Inr ())))"

definition validate_agent_config :: "pyval dict \<Rightarrow> string + unit" where
  "validate_agent_config ac =
     (if \<not> has_key ''name'' ac then Inl ''Missing name in agent_config''
      else if \<not> has_key ''base_instructions'' ac
        then Inl ''Missing base_instructions in agent_config''
      else Inr ())"

fun validate_next_stages :: "string \<Rightarrow> transition list \<Rightarrow> stage dict \<Rightarrow> string + unit" where
  \<comment> \<open>the loop over \<^verbatim>\<open>stage["next_stages"]\<close> in \<^verbatim>\<open>_validate_stage\<close>\<close>
  "validate_next_stages sid [] all_stages = Inr ()"
| "validate_next_stages sid (ns # rest) all_stages =
     (case stage_id ns of
        None \<Rightarrow> Inl (''next_stage in stage '' @ quoted sid @ '' missing stage_id'')
      | Some target_stage \<Rightarrow>
     (case condition ns of
        None \<Rightarrow> Inl (''next_stage in stage '' @ quoted sid @ '' missing condition'')
      | Some c \<Rightarrow>
        if target_stage \<noteq> ''END'' \<and> \<not> has_key target_stage all_stages
          then Inl (''Stage '' @ quoted sid @ '' references non-existent stage: '' @ target_stage)
        else validate_next_stages sid rest all_stages))"

definition missing_field :: "string \<Rightarrow> string \<Rightarrow> string" where
  "missing_field sid field = ''Stage '' @ quoted sid @ '' missing required field: '' @ field"

definition validate_stage :: "string \<Rightarrow> stage \<Rightarrow> stage dict \<Rightarrow> string + unit" where
  "validate_stage sid st all_stages =
     (if ident st = None then Inl (missing_field sid ''id'')
      else if name st = None then Inl (missing_field sid ''name'')
      else if prompt st = None then Inl (missing_field sid ''prompt'')
      else if completion_criteria st = None then Inl (missing_field sid ''completion_criteria'')
      else case next_stages st of
             None \<Rightarrow> Inr ()
           | Some nss \<Rightarrow> validate_next_stages sid nss all_stages)"

fun validate_stages :: "stage dict \<Rightarrow> stage dict \<Rightarrow> string + unit" where
  \<comment> \<open>\<^verbatim>\<open>for stage_id, stage in stages.items(): self._validate_stage(stage_id, stage, stages)\<close>\<close>
  "validate_stages [] all_stages = Inr ()"
| "validate_stages ((sid, st) # rest) all_stages =
     (case validate_stage sid st all_stages of
        Inl msg \<Rightarrow> Inl msg
      | Inr _ \<Rightarrow> validate_stages rest all_stages)"

definition validate_stage_flow :: "flow_section \<Rightarrow> string + unit" where
  "validate_stage_flow fl =
     (case start_stage fl of
        None \<Rightarrow> Inl ''Missing start_stage in flow''
      | Some start \<Rightarrow>
     (case stages fl of
        None \<Rightarrow> Inl ''Missing stages in flow''
      | Some sts \<Rightarrow>
        if \<not> has_key start sts
          then Inl (''start_stage '' @ quoted start @ '' not found in stages'')
        else validate_stages sts sts))"

definition validate_config :: "config \<Rightarrow> string + unit" where
  "validate_config cfg =
     (case global_settings cfg of
        None \<Rightarrow> Inl ''Missing required key in config: global_settings''
      | Some gs \<Rightarrow>
     (case agent_config cfg of
        None \<Rightarrow> Inl ''Missing required key in config: agent_config''
      | Some ac \<Rightarrow>
     (case flow cfg of
        None \<Rightarrow> Inl ''Missing required key in config: flow''
      | Some fl \<Rightarrow>
     (case validate_global_settings gs of
        Inl msg \<Rightarrow> Inl msg
      | Inr _ \<Rightarrow>
     (case validate_agent_config ac of
        Inl msg \<Rightarrow> Inl msg
      | Inr _ \<Rightarrow> validate_stage_flow fl)))))"

section \<open>multi\_prompt\_agent.py: the session\<close>

text \<open>
  One record holds what the engine reads and writes during a conversation: the agent's own
  fields (\<^verbatim>\<open>self.stages\<close>, \<^verbatim>\<open>self.start_stage_id\<close>, the base instructions), the
  \<^verbatim>\<open>UserData\<close> fields (\<open>context_map\<close> is \<^verbatim>\<open>userdata.context\<close>, \<open>userdata_stages\<close> is
  \<^verbatim>\<open>userdata.stages\<close>), the texts handed to \<^verbatim>\<open>session.say\<close> and the messages added
  to the LLM chat context.  The time stamp of a history entry is an argument \<open>now\<close> of the
  operation that writes it.
\<close>

record history_entry =
  role :: string
  content :: string
  entry_stage_id :: string
  timestamp :: string

record stage_descriptor =
  \<comment> \<open>the values interpolated into the system message of \<^verbatim>\<open>_update_stage_context\<close>\<close>
  d_base_instructions :: string
  d_id :: string
  d_name :: string
  d_description :: string
  d_completion_criteria :: string
  d_context :: "pyval dict"
  d_prompt :: string
  d_next_stages :: "(string \<times> string \<times> int) list option"

datatype chat_message = SystemMessage stage_descriptor | AssistantMessage string

record session =
  self_stages :: "stage dict"
  start_stage_id :: string
  base_instructions :: string
  current_stage_id :: string
  context_map :: "pyval dict"
  conversation_history :: "history_entry list"
  userdata_stages :: "stage dict"
  said :: "string list"
  chat_ctx :: "chat_message list"

datatype py_error = KeyError string

datatype outcome =
    Entered
    \<comment> \<open>\<^verbatim>\<open>_enter_stage\<close> ran to its end\<close>
  | Ended
    \<comment> \<open>the farewell was spoken (lines 470-472 and 560-561)\<close>
  | Stayed
    \<comment> \<open>no next stage matched (line 523)\<close>
  | StageNotFound string
    \<comment> \<open>\<^verbatim>\<open>logger.error\<close> of line 276\<close>
  | TargetNotFound string
    \<comment> \<open>\<^verbatim>\<open>logger.error\<close> of line 476\<close>
  | InvalidTransition string string "string list"
    \<comment> \<open>\<^verbatim>\<open>logger.warning\<close> of line 488: current stage, target, valid transitions\<close>
  | Raised py_error
    \<comment> \<open>an exception left the operation\<close>

definition farewell :: string where
  "farewell = ''Thank you for contacting us. Have a great day!''"

definition get_priority :: "transition \<Rightarrow> int" where
  \<comment> \<open>\<^verbatim>\<open>s.get("priority", 50)\<close>\<close>
  "get_priority ns = (case priority ns of None \<Rightarrow> 50 | Some p \<Rightarrow> p)"

fun next_stages_info :: "transition list \<Rightarrow> py_error + (string \<times> string \<times> int) list" where
  \<comment> \<open>the loop of lines 362-364\<close>
  "next_stages_info [] = Inr []"
| "next_stages_info (ns # rest) =
     (case stage_id ns of
        None \<Rightarrow> Inl (KeyError ''stage_id'')
      | Some t \<Rightarrow>
     (case condition ns of
        None \<Rightarrow> Inl (KeyError ''condition'')
      | Some c \<Rightarrow>
     (case next_stages_info rest of
        Inl e \<Rightarrow> Inl e
      | Inr infos \<Rightarrow> Inr ((t, c, get_priority ns) # infos))))"

definition update_stage_context :: "stage \<Rightarrow> string \<Rightarrow> session \<Rightarrow> outcome \<times> session" where
  "update_stage_context st rendered_prompt s =
     (case (case next_stages st of
              None \<Rightarrow> Inr None
            | Some nss \<Rightarrow> map_sum id Some (next_stages_info nss)) of
        Inl e \<Rightarrow> (Raised e, s)
      | Inr info \<Rightarrow>
     (case ident st of
        None \<Rightarrow> (Raised (KeyError ''id''), s)
      | Some i \<Rightarrow>
     (case name st of
        None \<Rightarrow> (Raised (KeyError ''name''), s)
      | Some n \<Rightarrow>
     (case description st of
        None \<Rightarrow> (Raised (KeyError ''description''), s)
      | Some d \<Rightarrow>
     (case completion_criteria st of
        None \<Rightarrow> (Raised (KeyError ''completion_criteria''), s)
      | Some cc \<Rightarrow>
        (Entered,
         s\<lparr>chat_ctx := chat_ctx s @
              [SystemMessage \<lparr>d_base_instructions = base_instructions s, d_id = i, d_name = n,
                 d_description = d, d_completion_criteria = cc, d_context = context_map s,
                 d_prompt = rendered_prompt, d_next_stages = info\<rparr>,
               AssistantMessage rendered_prompt]\<rparr>))))))"

definition enter_stage :: "string \<Rightarrow> string \<Rightarrow> session \<Rightarrow> outcome \<times> session" where
  "enter_stage now sid s0 =
     (let s1 = s0\<lparr>current_stage_id := sid\<rparr> in
      case lookup (self_stages s1) sid of
        None \<Rightarrow> (StageNotFound sid, s1)
      | Some st \<Rightarrow>
     (let s2 = (case context_updates st of
                  None \<Rightarrow> s1
                | Some upd \<Rightarrow> s1\<lparr>context_map := dict_update (context_map s1) upd\<rparr>) in
      case greeting st of
        None \<Rightarrow> (Raised (KeyError ''greeting''), s2)
      | Some g \<Rightarrow>
     (case prompt st of
        None \<Rightarrow> (Raised (KeyError ''prompt''), s2)
      | Some p \<Rightarrow>
     (case name st of
        None \<Rightarrow> (Raised (KeyError ''name''), s2)
      | Some n \<Rightarrow>
     (case description st of
        None \<Rightarrow> (Raised (KeyError ''description''), s2)
      | Some d \<Rightarrow>
     (case completion_criteria st of
        None \<Rightarrow> (Raised (KeyError ''completion_criteria''), s2)
      | Some cc \<Rightarrow>
       (let rendered_greeting = substitute_variables g (context_map s2);
            rendered_prompt = substitute_variables p (context_map s2);
            s3 = s2\<lparr>said := said s2 @ [rendered_greeting]\<rparr>;
            s4 = s3\<lparr>conversation_history := conversation_history s3 @
                   [\<lparr>role = ''assistant'', content = rendered_prompt,
                     entry_stage_id = sid, timestamp = now\<rparr>]\<rparr>
        in update_stage_context st rendered_prompt s4)))))))"

definition on_enter :: "string \<Rightarrow> session \<Rightarrow> outcome \<times> session" where
  \<comment> \<open>the room attribute and \<^verbatim>\<open>userdata.config\<close>, which no operation reads, are left out\<close>
  "on_enter now s =
     enter_stage now (start_stage_id s)
       (s\<lparr>current_stage_id := start_stage_id s, userdata_stages := self_stages s\<rparr>)"

definition on_user_speech_committed :: "string \<Rightarrow> string \<Rightarrow> session \<Rightarrow> session" where
  "on_user_speech_committed now user_msg s =
     s\<lparr>conversation_history := conversation_history s @
        [\<lparr>role = ''user'', content = user_msg,
          entry_stage_id = current_stage_id s, timestamp = now\<rparr>]\<rparr>"

section \<open>The transition resolver\<close>

definition sorted_by_priority :: "transition list \<Rightarrow> transition list" where
  \<comment> \<open>\<^verbatim>\<open>sorted(next_stages, key=lambda s: s.get("priority", 50), reverse=True)\<close>:
      Python's sort is stable, also with \<^verbatim>\<open>reverse=True\<close>\<close>
  "sorted_by_priority nss = sort_key (\<lambda>ns. - get_priority ns) nss"

definition keyword_match :: "string \<Rightarrow> string \<Rightarrow> bool" where
  \<comment> \<open>\<^verbatim>\<open>any(keyword in user_lower for keyword in condition.split())\<close>\<close>
  "keyword_match cond user_lower = list_ex (\<lambda>keyword. str_contains keyword user_lower) (split cond)"

fun first_match :: "string \<Rightarrow> transition list \<Rightarrow> py_error + string option" where
  \<comment> \<open>the loop of lines 428-443\<close>
  "first_match user_lower [] = Inr None"
| "first_match user_lower (ns # rest) =
     (case condition ns of
        None \<Rightarrow> Inl (KeyError ''condition'')
      | Some c \<Rightarrow>
        if keyword_match (lower c) user_lower
        then (case stage_id ns of
                None \<Rightarrow> Inl (KeyError ''stage_id'')
              | Some target_stage \<Rightarrow> Inr (Some target_stage))
        else first_match user_lower rest)"

definition find_next_stage :: "string \<Rightarrow> string \<Rightarrow> stage dict \<Rightarrow> py_error + string option" where
  \<comment> \<open>the third argument is \<^verbatim>\<open>self.stages\<close>; the \<^verbatim>\<open>context\<close> argument of the source is unused\<close>
  "find_next_stage user_input cur_id sts =
     (case lookup sts cur_id of
        None \<Rightarrow> Inl (KeyError cur_id)
      | Some current_stage \<Rightarrow>
     (case next_stages current_stage of
        None \<Rightarrow> Inr None
      | Some nss \<Rightarrow> first_match (lower user_input) (sorted_by_priority nss)))"

section \<open>The function tools\<close>

fun transition_targets :: "transition list \<Rightarrow> py_error + string list" where
  \<comment> \<open>\<^verbatim>\<open>[ns["stage_id"] for ns in current_stage["next_stages"]]\<close>\<close>
  "transition_targets [] = Inr []"
| "transition_targets (ns # rest) =
     (case stage_id ns of
        None \<Rightarrow> Inl (KeyError ''stage_id'')
      | Some t \<Rightarrow> map_sum id ((#) t) (transition_targets rest))"

definition valid_transitions :: "stage \<Rightarrow> py_error + string list" where
  "valid_transitions current_stage =
     (case next_stages current_stage of
        None \<Rightarrow> Inr []
      | Some nss \<Rightarrow> transition_targets nss)"

definition move_to_next_stage :: "string \<Rightarrow> string \<Rightarrow> session \<Rightarrow> outcome \<times> session" where
  "move_to_next_stage now target_stage s =
     (if target_stage = ''END'' then (Ended, s\<lparr>said := said s @ [farewell]\<rparr>)
      else if \<not> has_key target_stage (userdata_stages s) then (TargetNotFound target_stage, s)
      else case lookup (userdata_stages s) (current_stage_id s) of
        None \<Rightarrow> (Raised (KeyError (current_stage_id s)), s)
      | Some current_stage \<Rightarrow>
     (case valid_transitions current_stage of
        Inl e \<Rightarrow> (Raised e, s)
      | Inr valid \<Rightarrow>
        if target_stage \<notin> set valid \<and> target_stage \<noteq> ''END''
        then (InvalidTransition (current_stage_id s) target_stage valid, s)
        else enter_stage now target_stage s))"

definition complete_current_stage :: "string \<Rightarrow> string \<Rightarrow> session \<Rightarrow> outcome \<times> session" where
  "complete_current_stage now next_stage_reason s =
     (case find_next_stage next_stage_reason (current_stage_id s) (self_stages s) of
        Inl e \<Rightarrow> (Raised e, s)
      | Inr None \<Rightarrow> (Stayed, s)
      | Inr (Some next_stage) \<Rightarrow>
          \<comment> \<open>\<^verbatim>\<open>if next_stage:\<close> is false for the empty string as well\<close>
          if next_stage \<noteq> [] then move_to_next_stage now next_stage s else (Stayed, s))"

definition end_conversation :: "string \<Rightarrow> session \<Rightarrow> outcome \<times> session" where
  "end_conversation now s =
     (case lookup (userdata_stages s) (current_stage_id s) of
        None \<Rightarrow> (Raised (KeyError (current_stage_id s)), s)
      | Some current_stage \<Rightarrow>
     (case valid_transitions current_stage of
        Inl e \<Rightarrow> (Raised e, s)
      | Inr valid \<Rightarrow>
        if ''completion'' \<in> set valid then move_to_next_stage now ''completion'' s
        else if ''goodbye'' \<in> set valid then move_to_next_stage now ''goodbye'' s
        else if has_key ''goodbye'' (userdata_stages s) then enter_stage now ''goodbye'' s
        else (Ended, s\<lparr>said := said s @ [farewell]\<rparr>)))"

section \<open>Templates\<close>

text \<open>
  A template is read as a sequence of literal texts and markers.  \<open>render_segment\<close> is the
  substitution as the specification words it: a marker whose key is in the context
  becomes the text of the value, every other segment stays as it is.
\<close>

datatype segment = Lit string | Var string

fun seg_text :: "segment \<Rightarrow> string" where
  "seg_text (Lit s) = s"
| "seg_text (Var k) = marker k"

definition template_text :: "segment list \<Rightarrow> string" where
  "template_text segs = concat (map seg_text segs)"

fun render_segment :: "pyval dict \<Rightarrow> segment \<Rightarrow> string" where
  "render_segment ctx (Lit s) = s"
| "render_segment ctx (Var k) = (case lookup ctx k of Some v \<Rightarrow> py_str v | None \<Rightarrow> marker k)"

definition brace_free :: "string \<Rightarrow> bool" where
  "brace_free s = (CHR ''{'' \<notin> set s \<and> CHR ''}'' \<notin> set s)"

fun key_plain :: "segment \<Rightarrow> bool" where
  "key_plain (Lit s) = True"
| "key_plain (Var k) = brace_free k"

definition substituted :: "string \<Rightarrow> string \<Rightarrow> segment \<Rightarrow> segment" where
  \<comment> \<open>the segment after the markers of \<open>k\<close> are replaced: the value is literal text from now on\<close>
  "substituted k new seg = (if seg = Var k then Lit new else seg)"

fun literal_run_free :: "string \<Rightarrow> string \<Rightarrow> segment list \<Rightarrow> bool" where
  \<comment> \<open>no maximal run of literal text holds the text \<open>m\<close>; \<open>run\<close> is the run read so far\<close>
  "literal_run_free m run [] = (\<not> sublist m run)"
| "literal_run_free m run (Lit s # segs) = literal_run_free m (run @ s) segs"
| "literal_run_free m run (Var k # segs) = (\<not> sublist m run \<and> literal_run_free m [] segs)"

fun no_marker_forms :: "pyval dict \<Rightarrow> segment list \<Rightarrow> bool" where
  \<comment> \<open>key after key: the literal text, which includes the values substituted so far, does
      not hold the marker of the key that is replaced next, and the key holds no brace\<close>
  "no_marker_forms [] segs = True"
| "no_marker_forms ((k, v) # rest) segs =
     (brace_free k \<and> literal_run_free (marker k) [] segs
      \<and> no_marker_forms rest (map (substituted k (py_str v)) segs))"

section \<open>Structural completeness of a configuration\<close>

text \<open>
  The conditions of the specification's section 4.1, read off the specification:
  the sections and their required keys, the start stage among the stages, the four
  required fields of every stage, and every transition with a target and a condition
  whose target is \<open>END\<close> or a stage of the flow.
\<close>

definition settings_complete :: "settings \<Rightarrow> bool" where
  "settings_complete gs =
     ((case llm_settings gs of None \<Rightarrow> False
       | Some llm \<Rightarrow> has_key ''provider'' llm \<and> has_key ''model'' llm \<and> has_key ''temperature'' llm)
    \<and> (case stt_settings gs of None \<Rightarrow> False
       | Some stt \<Rightarrow> has_key ''provider'' stt \<and> has_key ''model'' stt \<and> has_key ''language'' stt)
    \<and> (case tts_settings gs of None \<Rightarrow> False
       | Some tts \<Rightarrow> has_key ''provider'' tts \<and> has_key ''model'' tts \<and> has_key ''voice'' tts))"

definition agent_config_complete :: "pyval dict \<Rightarrow> bool" where
  "agent_config_complete ac = (has_key ''name'' ac \<and> has_key ''base_instructions'' ac)"

definition transition_complete :: "stage dict \<Rightarrow> transition \<Rightarrow> bool" where
  "transition_complete sts ns =
     (case stage_id ns of None \<Rightarrow> False
      | Some t \<Rightarrow> condition ns \<noteq> None \<and> (t = ''END'' \<or> has_key t sts))"

definition stage_complete :: "stage dict \<Rightarrow> stage \<Rightarrow> bool" where
  "stage_complete sts st =
     (ident st \<noteq> None \<and> name st \<noteq> None \<and> prompt st \<noteq> None \<and> completion_criteria st \<noteq> None
      \<and> (case next_stages st of None \<Rightarrow> True | Some nss \<Rightarrow> list_all (transition_complete sts) nss))"

definition flow_complete :: "flow_section \<Rightarrow> bool" where
  "flow_complete fl =
     (case start_stage fl of None \<Rightarrow> False
      | Some start \<Rightarrow>
     (case stages fl of None \<Rightarrow> False
      | Some sts \<Rightarrow> has_key start sts \<and> list_all (\<lambda>(sid, st). stage_complete sts st) sts))"

definition structurally_complete :: "config \<Rightarrow> bool" where
  "structurally_complete cfg =
     ((case global_settings cfg of None \<Rightarrow> False | Some gs \<Rightarrow> settings_complete gs)
    \<and> (case agent_config cfg of None \<Rightarrow> False | Some ac \<Rightarrow> agent_config_complete ac)
    \<and> (case flow cfg of None \<Rightarrow> False | Some fl \<Rightarrow> flow_complete fl))"

text \<open>
  What a rejection message reports: \<open>reports cfg msg\<close> holds when \<open>msg\<close> is the message
  of a violation that \<open>cfg\<close> has.  Every message but the three about a settings section
  carries the name of the missing key, and the messages about a stage carry the key under
  which the stage is stored.
\<close>

inductive reports :: "config \<Rightarrow> string \<Rightarrow> bool" where
  no_global_settings:
    "global_settings cfg = None \<Longrightarrow> reports cfg ''Missing required key in config: global_settings''"
| no_agent_config:
    "agent_config cfg = None \<Longrightarrow> reports cfg ''Missing required key in config: agent_config''"
| no_flow:
    "flow cfg = None \<Longrightarrow> reports cfg ''Missing required key in config: flow''"
| no_llm_settings:
    "global_settings cfg = Some gs \<Longrightarrow> llm_settings gs = None
     \<Longrightarrow> reports cfg ''Missing llm_settings in global_settings''"
| no_stt_settings:
    "global_settings cfg = Some gs \<Longrightarrow> stt_settings gs = None
     \<Longrightarrow> reports cfg ''Missing stt_settings in global_settings''"
| no_tts_settings:
    "global_settings cfg = Some gs \<Longrightarrow> tts_settings gs = None
     \<Longrightarrow> reports cfg ''Missing tts_settings in global_settings''"
| llm_incomplete:
    "global_settings cfg = Some gs \<Longrightarrow> llm_settings gs = Some llm
     \<Longrightarrow> \<not> (has_key ''provider'' llm \<and> has_key ''model'' llm \<and> has_key ''temperature'' llm)
     \<Longrightarrow> reports cfg ''LLM settings missing required fields''"
| stt_incomplete:
    "global_settings cfg = Some gs \<Longrightarrow> stt_settings gs = Some stt
     \<Longrightarrow> \<not> (has_key ''provider'' stt \<and> has_key ''model'' stt \<and> has_key ''language'' stt)
     \<Longrightarrow> reports cfg ''STT settings missing required fields''"
| tts_incomplete:
    "global_settings cfg = Some gs \<Longrightarrow> tts_settings gs = Some tts
     \<Longrightarrow> \<not> (has_key ''provider'' tts \<and> has_key ''model'' tts \<and> has_key ''voice'' tts)
     \<Longrightarrow> reports cfg ''TTS settings missing required fields''"
| no_agent_field:
    "agent_config cfg = Some ac \<Longrightarrow> field \<in> {''name'', ''base_instructions''}
     \<Longrightarrow> \<not> has_key field ac
     \<Longrightarrow> reports cfg (''Missing '' @ field @ '' in agent_config'')"
| no_start_stage:
    "flow cfg = Some fl \<Longrightarrow> start_stage fl = None \<Longrightarrow> reports cfg ''Missing start_stage in flow''"
| no_stages:
    "flow cfg = Some fl \<Longrightarrow> stages fl = None \<Longrightarrow> reports cfg ''Missing stages in flow''"
| start_stage_unknown:
    "flow cfg = Some fl \<Longrightarrow> start_stage fl = Some start \<Longrightarrow> stages fl = Some sts
     \<Longrightarrow> \<not> has_key start sts
     \<Longrightarrow> reports cfg (''start_stage '' @ quoted start @ '' not found in stages'')"
| no_stage_field:
    "flow cfg = Some fl \<Longrightarrow> stages fl = Some sts \<Longrightarrow> (sid, st) \<in> set sts
     \<Longrightarrow> (field = ''id'' \<and> ident st = None) \<or> (field = ''name'' \<and> name st = None)
         \<or> (field = ''prompt'' \<and> prompt st = None)
         \<or> (field = ''completion_criteria'' \<and> completion_criteria st = None)
     \<Longrightarrow> reports cfg (''Stage '' @ quoted sid @ '' missing required field: '' @ field)"
| no_transition_target:
    "flow cfg = Some fl \<Longrightarrow> stages fl = Some sts \<Longrightarrow> (sid, st) \<in> set sts
     \<Longrightarrow> next_stages st = Some nss \<Longrightarrow> ns \<in> set nss \<Longrightarrow> stage_id ns = None
     \<Longrightarrow> reports cfg (''next_stage in stage '' @ quoted sid @ '' missing stage_id'')"
| no_transition_condition:
    "flow cfg = Some fl \<Longrightarrow> stages fl = Some sts \<Longrightarrow> (sid, st) \<in> set sts
     \<Longrightarrow> next_stages st = Some nss \<Longrightarrow> ns \<in> set nss \<Longrightarrow> condition ns = None
     \<Longrightarrow> reports cfg (''next_stage in stage '' @ quoted sid @ '' missing condition'')"
| transition_target_unknown:
    "flow cfg = Some fl \<Longrightarrow> stages fl = Some sts \<Longrightarrow> (sid, st) \<in> set sts
     \<Longrightarrow> next_stages st = Some nss \<Longrightarrow> ns \<in> set nss \<Longrightarrow> stage_id ns = Some target
     \<Longrightarrow> target \<noteq> ''END'' \<Longrightarrow> \<not> has_key target sts
     \<Longrightarrow> reports cfg (''Stage '' @ quoted sid @ '' references non-existent stage: '' @ target)"

text \<open>
  All violations of a configuration, in the order in which the validator looks for them:
  the three top-level keys; the three settings sections, then the keys of the LLM, the STT
  and the TTS section; the two keys of the agent section; the start stage, the stages, the
  start stage among the stages; then stage after stage its four required fields and,
  transition after transition, the target, the condition and the existence of the target.
\<close>

definition absent :: "'a option \<Rightarrow> string \<Rightarrow> string list" where
  "absent field msg = (case field of None \<Rightarrow> [msg] | Some _ \<Rightarrow> [])"

definition settings_violations :: "settings \<Rightarrow> string list" where
  "settings_violations gs =
     absent (llm_settings gs) ''Missing llm_settings in global_settings''
   @ absent (stt_settings gs) ''Missing stt_settings in global_settings''
   @ absent (tts_settings gs) ''Missing tts_settings in global_settings''
   @ (case llm_settings gs of None \<Rightarrow> []
      | Some llm \<Rightarrow>
          if has_key ''provider'' llm \<and> has_key ''model'' llm \<and> has_key ''temperature'' llm
          then [] else [''LLM settings missing required fields''])
   @ (case stt_settings gs of None \<Rightarrow> []
      | Some stt \<Rightarrow>
          if has_key ''provider'' stt \<and> has_key ''model'' stt \<and> has_key ''language'' stt
          then [] else [''STT settings missing required fields''])
   @ (case tts_settings gs of None \<Rightarrow> []
      | Some tts \<Rightarrow>
          if has_key ''provider'' tts \<and> has_key ''model'' tts \<and> has_key ''voice'' tts
          then [] else [''TTS settings missing required fields''])"

definition agent_violations :: "pyval dict \<Rightarrow> string list" where
  "agent_violations ac =
     (if has_key ''name'' ac then [] else [''Missing name in agent_config''])
   @ (if has_key ''base_instructions'' ac then []
      else [''Missing base_instructions in agent_config''])"

definition transition_violations :: "string \<Rightarrow> stage dict \<Rightarrow> transition \<Rightarrow> string list" where
  "transition_violations sid sts ns =
     absent (stage_id ns) (''next_stage in stage '' @ quoted sid @ '' missing stage_id'')
   @ absent (condition ns) (''next_stage in stage '' @ quoted sid @ '' missing condition'')
   @ (case stage_id ns of None \<Rightarrow> []
      | Some target \<Rightarrow>
          if target = ''END'' \<or> has_key target sts then []
          else [''Stage '' @ quoted sid @ '' references non-existent stage: '' @ target])"

definition stage_violations :: "stage dict \<Rightarrow> string \<times> stage \<Rightarrow> string list" where
  "stage_violations sts = (\<lambda>(sid, st).
     absent (ident st) (''Stage '' @ quoted sid @ '' missing required field: id'')
   @ absent (name st) (''Stage '' @ quoted sid @ '' missing required field: name'')
   @ absent (prompt st) (''Stage '' @ quoted sid @ '' missing required field: prompt'')
   @ absent (completion_criteria st)
       (''Stage '' @ quoted sid @ '' missing required field: completion_criteria'')
   @ (case next_stages st of None \<Rightarrow> []
      | Some nss \<Rightarrow> concat (map (transition_violations sid sts) nss)))"

definition flow_violations :: "flow_section \<Rightarrow> string list" where
  "flow_violations fl =
     absent (start_stage fl) ''Missing start_stage in flow''
   @ absent (stages fl) ''Missing stages in flow''
   @ (case start_stage fl of None \<Rightarrow> []
      | Some start \<Rightarrow>
     (case stages fl of None \<Rightarrow> []
      | Some sts \<Rightarrow>
          (if has_key start sts then []
           else [''start_stage '' @ quoted start @ '' not found in stages''])
        @ concat (map (stage_violations sts) sts)))"

definition violations :: "config \<Rightarrow> string list" where
  "violations cfg =
     absent (global_settings cfg) ''Missing required key in config: global_settings''
   @ absent (agent_config cfg) ''Missing required key in config: agent_config''
   @ absent (flow cfg) ''Missing required key in config: flow''
   @ (case global_settings cfg of None \<Rightarrow> [] | Some gs \<Rightarrow> settings_violations gs)
   @ (case agent_config cfg of None \<Rightarrow> [] | Some ac \<Rightarrow> agent_violations ac)
   @ (case flow cfg of None \<Rightarrow> [] | Some fl \<Rightarrow> flow_violations fl)"

fun first_violation :: "string list \<Rightarrow> string + unit" where
  \<comment> \<open>stopping at the first violation: its message is raised; none, and the check passes\<close>
  "first_violation [] = Inr ()"
| "first_violation (msg # others) = Inl msg"

definition with_idents :: "(string \<Rightarrow> string) \<Rightarrow> config \<Rightarrow> config" where
  \<comment> \<open>the configuration with the \<^verbatim>\<open>id\<close> of every stage that has one set to \<open>f key\<close>\<close>
  "with_idents f cfg =
     cfg\<lparr>flow := map_option
       (\<lambda>fl. fl\<lparr>stages := map_option
          (map (\<lambda>(sid, st). (sid, st\<lparr>ident := map_option (\<lambda>_. f sid) (ident st)\<rparr>)))
          (stages fl)\<rparr>)
       (flow cfg)\<rparr>"

section \<open>An example configuration\<close>

text \<open>
  The flow of the specification's end-to-end scenario: \<open>greeting\<close> leads to \<open>billing\<close> on the
  condition \<open>bill payment\<close> with priority 100, and \<open>billing\<close> leads to \<open>END\<close>.
\<close>

definition greeting_stage :: stage where
  "greeting_stage =
     \<lparr>ident = Some ''greeting'', name = Some ''Greeting'', description = Some ''Welcome the caller'',
      greeting = Some ''Hello {{user_name}}, how can I help?'',
      prompt = Some ''Find out why {{user_name}} is calling'',
      completion_criteria = Some ''The reason for the call is known'',
      context_updates = None,
      next_stages = Some [\<lparr>stage_id = Some ''billing'', condition = Some ''bill payment'',
                            priority = Some 100\<rparr>]\<rparr>"

definition billing_stage :: stage where
  "billing_stage =
     \<lparr>ident = Some ''billing'', name = Some ''Billing'', description = Some ''Help with a bill'',
      greeting = Some ''Let us look at your bill, {{user_name}}.'',
      prompt = Some ''Help {{user_name}} in {{department}}'',
      completion_criteria = Some ''The bill is settled'',
      context_updates = Some [(''department'', VStr ''billing'')],
      next_stages = Some [\<lparr>stage_id = Some ''END'', condition = Some ''done thanks'',
                            priority = None\<rparr>]\<rparr>"

definition example_stages :: "stage dict" where
  "example_stages = [(''greeting'', greeting_stage), (''billing'', billing_stage)]"

definition example_settings :: settings where
  "example_settings =
     \<lparr>llm_settings = Some [(''provider'', VStr ''openai''), (''model'', VStr ''gpt-4o-mini''),
                           (''temperature'', VInt 1)],
      stt_settings = Some [(''provider'', VStr ''deepgram''), (''model'', VStr ''nova-2''),
                           (''language'', VStr ''en'')],
      tts_settings = Some [(''provider'', VStr ''openai''), (''model'', VStr ''tts-1''),
                           (''voice'', VStr ''ash'')]\<rparr>"

definition example_config :: config where
  "example_config =
     \<lparr>global_settings = Some example_settings,
      agent_config = Some [(''name'', VStr ''Helper''), (''base_instructions'', VStr ''Be kind'')],
      flow = Some \<lparr>start_stage = Some ''greeting'', stages = Some example_stages\<rparr>\<rparr>"

definition no_model_config :: config where
  \<comment> \<open>the example without the \<^verbatim>\<open>model\<close> of the LLM settings\<close>
  "no_model_config =
     example_config\<lparr>global_settings := Some (example_settings\<lparr>llm_settings :=
        Some [(''provider'', VStr ''openai''), (''temperature'', VInt 1)]\<rparr>)\<rparr>"

definition mismatched_stages :: "stage dict" where
  \<comment> \<open>the stage stored under \<open>greeting\<close> calls itself \<open>welcome\<close>\<close>
  "mismatched_stages =
     [(''greeting'', greeting_stage\<lparr>ident := Some ''welcome''\<rparr>), (''billing'', billing_stage)]"

definition mismatched_config :: config where
  "mismatched_config =
     example_config\<lparr>flow := Some \<lparr>start_stage = Some ''greeting'', stages = Some mismatched_stages\<rparr>\<rparr>"

section \<open>Sessions on a validated configuration\<close>

text \<open>
  \<open>declared_targets\<close> lists the targets of the transitions that a stage declares.
  \<open>session_ok\<close> describes the sessions that the tools of the agent see: \<^verbatim>\<open>on_enter\<close> has
  stored the agent's stages in the user data, the current stage is one of them, and every
  stage passed the validator.  \<open>stages_enterable\<close> adds the two keys that \<^verbatim>\<open>_enter_stage\<close>
  reads although the validator does not ask for them.
\<close>

definition declared_targets :: "stage \<Rightarrow> string list" where
  "declared_targets st =
     (case next_stages st of None \<Rightarrow> [] | Some nss \<Rightarrow> List.map_filter stage_id nss)"

definition session_ok :: "session \<Rightarrow> bool" where
  "session_ok s =
     (userdata_stages s = self_stages s
      \<and> has_key (current_stage_id s) (self_stages s)
      \<and> list_all (\<lambda>(sid, st). stage_complete (self_stages s) st) (self_stages s))"


fun is_rejection :: "outcome \<Rightarrow> bool" where
  "is_rejection (StageNotFound sid) = True"
| "is_rejection (TargetNotFound sid) = True"
| "is_rejection (InvalidTransition cur target valid) = True"
| "is_rejection other = False"

definition merged_context :: "stage \<Rightarrow> pyval dict \<Rightarrow> pyval dict" where
  \<comment> \<open>the context after the stage's \<^verbatim>\<open>context_updates\<close>, if it has any, are merged in\<close>
  "merged_context st ctx =
     (case context_updates st of None \<Rightarrow> ctx | Some upd \<Rightarrow> dict_update ctx upd)"

section \<open>The resolver, as the specification words it\<close>

definition transition_matches :: "string \<Rightarrow> transition \<Rightarrow> bool" where
  \<comment> \<open>some token of the lower-cased condition is a substring of the lower-cased input\<close>
  "transition_matches user_input ns =
     (case condition ns of
        None \<Rightarrow> False
      | Some c \<Rightarrow> list_ex (\<lambda>token. sublist token (lower user_input)) (split (lower c)))"

definition declared_priority :: "transition \<Rightarrow> int" where
  \<comment> \<open>the priority of a transition: an integer, 50 when none is given\<close>
  "declared_priority ns = (case priority ns of None \<Rightarrow> 50 | Some p \<Rightarrow> p)"

definition priority_order :: "transition list \<Rightarrow> transition list \<Rightarrow> bool" where
  \<comment> \<open>\<open>sorted_nss\<close> is \<open>nss\<close> by descending priority, equal priorities in the order
      of \<open>nss\<close> (the second conjunct also makes it a rearrangement of \<open>nss\<close>)\<close>
  "priority_order nss sorted_nss =
     (sorted_wrt (\<lambda>a b. declared_priority a \<ge> declared_priority b) sorted_nss
      \<and> (\<forall>p. filter (\<lambda>ns. declared_priority ns = p) sorted_nss
             = filter (\<lambda>ns. declared_priority ns = p) nss))"

definition best_match :: "string \<Rightarrow> transition list \<Rightarrow> transition option" where
  \<comment> \<open>without sorting: among the transitions that match, the first declared of those
      with the highest priority\<close>
  "best_match user_input nss =
     (let ms = filter (transition_matches user_input) nss in
      if ms = [] then None
      else find (\<lambda>m. declared_priority m = Max (set (map declared_priority ms))) ms)"

definition keyed :: "transition \<Rightarrow> bool" where
  "keyed ns = (stage_id ns \<noteq> None \<and> condition ns \<noteq> None)"

section \<open>Example sessions\<close>

definition example_session :: session where
  \<comment> \<open>the example flow, in its first stage, with a caller named Ana\<close>
  "example_session =
     \<lparr>self_stages = example_stages, start_stage_id = ''greeting'',
      base_instructions = ''Be kind'', current_stage_id = ''greeting'',
      context_map = [(''user_name'', VStr ''Ana'')], conversation_history = [],
      userdata_stages = example_stages, said = [], chat_ctx = []\<rparr>"

definition completion_stage :: stage where
  "completion_stage =
     \<lparr>ident = Some ''completion'', name = Some ''Completion'', description = Some ''Wrap up'',
      greeting = Some ''Is there anything else, {{user_name}}?'',
      prompt = Some ''Check that {{user_name}} needs nothing more'',
      completion_criteria = Some ''Nothing is left open'',
      context_updates = None,
      next_stages = Some [\<lparr>stage_id = Some ''END'', condition = Some ''no nothing'',
                            priority = None\<rparr>]\<rparr>"

definition goodbye_stage :: stage where
  "goodbye_stage =
     \<lparr>ident = Some ''goodbye'', name = Some ''Goodbye'', description = Some ''Say goodbye'',
      greeting = Some ''Goodbye, {{user_name}}!'',
      prompt = Some ''Say goodbye to {{user_name}}'',
      completion_criteria = Some ''The caller has left'',
      context_updates = None,
      next_stages = None\<rparr>"

definition closing_stages :: "stage dict" where
  \<comment> \<open>\<open>billing\<close> leads to \<open>completion\<close> or \<open>goodbye\<close>; \<open>completion\<close> leads to \<open>END\<close> only\<close>
  "closing_stages =
     [(''billing'', billing_stage\<lparr>next_stages := Some
         [\<lparr>stage_id = Some ''goodbye'', condition = Some ''bye'', priority = None\<rparr>,
          \<lparr>stage_id = Some ''completion'', condition = Some ''done paid'', priority = Some 80\<rparr>]\<rparr>),
      (''completion'', completion_stage),
      (''goodbye'', goodbye_stage)]"

definition closing_session :: session where
  "closing_session =
     \<lparr>self_stages = closing_stages, start_stage_id = ''billing'',
      base_instructions = ''Be kind'', current_stage_id = ''billing'',
      context_map = [(''user_name'', VStr ''Ana'')], conversation_history = [],
      userdata_stages = closing_stages, said = [], chat_ctx = []\<rparr>"

definition broken_config :: config where
  \<comment> \<open>the example with three violations: no \<^verbatim>\<open>voice\<close> in the TTS settings, no \<^verbatim>\<open>name\<close>
      in the stage \<open>greeting\<close>, and a transition of \<open>billing\<close> to a stage that does not exist\<close>
  "broken_config =
     \<lparr>global_settings = Some (example_settings\<lparr>tts_settings :=
        Some [(''provider'', VStr ''openai''), (''model'', VStr ''tts-1'')]\<rparr>),
      agent_config = Some [(''name'', VStr ''Helper''), (''base_instructions'', VStr ''Be kind'')],
      flow = Some \<lparr>start_stage = Some ''greeting'',
        stages = Some
          [(''greeting'', greeting_stage\<lparr>name := None\<rparr>),
           (''billing'', billing_stage\<lparr>next_stages := Some
              [\<lparr>stage_id = Some ''nowhere'', condition = Some ''lost'', priority = None\<rparr>]\<rparr>)]\<rparr>\<rparr>"

definition empty_config :: config where
  "empty_config = \<lparr>global_settings = None, agent_config = None, flow = None\<rparr>"

definition menu_transitions :: "transition list" where
  \<comment> \<open>declared from the lowest priority upwards, with a tie between a transition
      without a priority and one with the priority 50\<close>
  "menu_transitions =
     [\<lparr>stage_id = Some ''low'', condition = Some ''pay'', priority = Some 10\<rparr>,
      \<lparr>stage_id = Some ''plain'', condition = Some ''Pay Invoice'', priority = None\<rparr>,
      \<lparr>stage_id = Some ''fifty'', condition = Some ''pay invoice'', priority = Some 50\<rparr>,
      \<lparr>stage_id = Some ''top'', condition = Some ''bill'', priority = Some 90\<rparr>,
      \<lparr>stage_id = Some ''END'', condition = Some ''cancel'', priority = Some 100\<rparr>]"

definition menu_stage :: stage where
  "menu_stage =
     \<lparr>ident = Some ''menu'', name = Some ''Menu'', description = Some ''Route the caller'',
      greeting = Some ''What can I do for you?'', prompt = Some ''Route the caller'',
      completion_criteria = Some ''The topic is known'', context_updates = None,
      next_stages = Some menu_transitions\<rparr>"

definition menu_stages :: "stage dict" where
  "menu_stages = [(''menu'', menu_stage)]"




section \<open>Variable substitution replaces the markers of a template\<close>

lemma marker_brace_positions:
  assumes "brace_free k" and "marker k = pre @ CHR ''{'' # post" and "pre \<noteq> []"
  shows "pre = ''{'' \<and> post = k @ ''}}''"
proof -
  from assms(2) have eq: "CHR ''{'' # CHR ''{'' # k @ ''}}'' = pre @ CHR ''{'' # post"
    by (simp add: marker_def)
  obtain c pre' where pre: "pre = c # pre'"
    using assms(3) by (cases pre) auto
  have "CHR ''{'' = c \<and> CHR ''{'' # k @ ''}}'' = pre' @ CHR ''{'' # post"
    using eq unfolding pre append_Cons list.inject .
  then have c: "c = CHR ''{''" and eq2: "CHR ''{'' # k @ ''}}'' = pre' @ CHR ''{'' # post"
    by blast+
  show ?thesis
  proof (cases pre')
    case Nil
    with eq2 pre c show ?thesis by simp
  next
    case (Cons d pre'')
    with eq2 have "k @ ''}}'' = pre'' @ CHR ''{'' # post" by simp
    then have "CHR ''{'' \<in> set (k @ ''}}'')" by simp
    then show ?thesis using assms(1) by (simp add: brace_free_def)
  qed
qed

lemma marker_not_prefix_across:
  assumes k: "brace_free k" and k': "brace_free k'"
    and run: "\<not> sublist (marker k) (c # run)"
    and rest: "rest = [] \<or> (\<exists>r. rest = marker k' @ r)"
  shows "\<not> prefix (marker k) (c # run @ rest)"
proof
  assume p: "prefix (marker k) (c # run @ rest)"
  have np: "\<not> prefix (marker k) (c # run)"
    using run by (auto simp: sublist_Cons_right)
  from p have "prefix (marker k) ((c # run) @ rest)" by simp
  then have "prefix (marker k) (c # run) \<or> (\<exists>us. marker k = (c # run) @ us \<and> prefix us rest)"
    by (simp only: prefix_append)
  then obtain m2 where m2: "marker k = (c # run) @ m2" and m2p: "prefix m2 rest"
    using np by blast
  have ne: "m2 \<noteq> []"
    using m2 np by auto
  from m2p ne rest obtain r where r: "rest = marker k' @ r"
    by auto
  from m2p ne r obtain post where post: "m2 = CHR ''{'' # post"
    by (cases m2) (auto simp: marker_def)
  have "c # run = ''{'' \<and> post = k @ ''}}''"
    using marker_brace_positions[OF k, of "c # run" post] m2 post by simp
  then have "m2 = CHR ''{'' # k @ ''}}''" using post by simp
  with m2p r have "prefix (CHR ''{'' # k @ ''}}'') (CHR ''{'' # CHR ''{'' # k' @ ''}}'' @ r)"
    by (simp add: marker_def)
  then have "prefix (k @ ''}}'') (CHR ''{'' # k' @ ''}}'' @ r)" by simp
  then show False
    using k by (cases k) (auto simp: brace_free_def)
qed

lemma replace_skip_run:
  assumes k: "brace_free k" and k': "brace_free k'"
    and rest: "rest = [] \<or> (\<exists>r. rest = marker k' @ r)"
  shows "\<not> sublist (marker k) run \<Longrightarrow>
     replace (marker k) new (run @ rest) = run @ replace (marker k) new rest"
proof (induction run)
  case Nil
  then show ?case by simp
next
  case (Cons c run)
  have np: "\<not> prefix (marker k) (c # run @ rest)"
    using marker_not_prefix_across[OF k k' Cons.prems rest] .
  have "\<not> sublist (marker k) run"
    using Cons.prems by (auto simp: sublist_Cons_right)
  then have IH: "replace (marker k) new (run @ rest) = run @ replace (marker k) new rest"
    by (rule Cons.IH)
  have ne: "marker k \<noteq> []" by (simp add: marker_def)
  show ?case using np IH ne by simp
qed


lemma replace_skip_char:
  "c \<noteq> CHR ''{'' \<Longrightarrow> replace (marker k) new (c # cs) = c # replace (marker k) new cs"
  by (simp add: marker_def)

lemma replace_skip_plain:
  "CHR ''{'' \<notin> set s \<Longrightarrow> replace (marker k) new (s @ rest) = s @ replace (marker k) new rest"
proof (induction s)
  case Nil
  then show ?case by simp
next
  case (Cons c s)
  then have "c \<noteq> CHR ''{''" and "CHR ''{'' \<notin> set s"
    by auto
  then show ?case
    using Cons.IH replace_skip_char[of c k new "s @ rest"] by simp
qed

lemma replace_marker_same:
  "replace (marker k) new (marker k @ rest) = new @ replace (marker k) new rest"
  by (simp add: marker_def)

lemma brace_free_prefix_eq:
  "brace_free k \<Longrightarrow> brace_free k' \<Longrightarrow> prefix (k @ ''}}'') (k' @ ''}}'' @ rest) \<Longrightarrow> k = k'"
proof (induction k arbitrary: k')
  case Nil
  then show ?case by (cases k') (auto simp: brace_free_def)
next
  case (Cons a k)
  then show ?case by (cases k') (auto simp: brace_free_def)
qed

lemma replace_marker_other:
  assumes "brace_free k" "brace_free k'" "k \<noteq> k'"
  shows "replace (marker k) new (marker k' @ rest) = marker k' @ replace (marker k) new rest"
proof -
  have first: "\<not> prefix (marker k) (marker k' @ rest)"
    using brace_free_prefix_eq[OF assms(1,2)] assms(3) by (auto simp: marker_def)
  have second: "\<not> prefix (marker k) (CHR ''{'' # k' @ ''}}'' @ rest)"
    using assms(2) by (cases k') (auto simp: marker_def brace_free_def)
  have tail: "CHR ''{'' \<notin> set (k' @ ''}}'')"
    using assms(2) by (simp add: brace_free_def)
  have "replace (marker k) new (marker k' @ rest)
      = CHR ''{'' # replace (marker k) new (CHR ''{'' # (k' @ ''}}'') @ rest)"
    using first by (simp add: marker_def)
  also have "\<dots> = CHR ''{'' # CHR ''{'' # replace (marker k) new ((k' @ ''}}'') @ rest)"
    using second by (simp add: marker_def)
  also have "\<dots> = CHR ''{'' # CHR ''{'' # (k' @ ''}}'') @ replace (marker k) new rest"
    using replace_skip_plain[OF tail] by simp
  finally show ?thesis by (simp add: marker_def)
qed

lemma replace_Nil_marker: "replace (marker k) new [] = []"
  by (simp add: marker_def)

lemma substituted_simps:
  "substituted k new (Lit s) = Lit s"
  "substituted k new (Var k') = (if k' = k then Lit new else Var k')"
  by (auto simp: substituted_def)

lemma replace_runs:
  assumes k: "brace_free k"
  shows "list_all key_plain segs \<Longrightarrow> literal_run_free (marker k) run segs \<Longrightarrow>
     replace (marker k) new (run @ template_text segs)
       = run @ template_text (map (substituted k new) segs)"
proof (induction segs arbitrary: run)
  case Nil
  then have "\<not> sublist (marker k) run" by simp
  then show ?case
    using replace_skip_run[OF k k, of "[]" run new]
    by (simp add: template_text_def replace_Nil_marker del: replace.simps)
next
  case (Cons seg segs)
  have plain: "list_all key_plain segs" using Cons.prems(1) by simp
  show ?case
  proof (cases seg)
    case (Lit s)
    then have "literal_run_free (marker k) (run @ s) segs"
      using Cons.prems(2) by simp
    then have "replace (marker k) new ((run @ s) @ template_text segs)
        = (run @ s) @ template_text (map (substituted k new) segs)"
      using Cons.IH[OF plain] by blast
    then show ?thesis
      using Lit by (simp add: template_text_def substituted_simps del: replace.simps)
  next
    case (Var k')
    then have k': "brace_free k'" using Cons.prems(1) by simp
    have run: "\<not> sublist (marker k) run" and rest: "literal_run_free (marker k) [] segs"
      using Cons.prems(2) Var by simp_all
    have IH: "replace (marker k) new (template_text segs)
        = template_text (map (substituted k new) segs)"
      using Cons.IH[OF plain rest] by simp
    have skip: "replace (marker k) new (run @ marker k' @ template_text segs)
        = run @ replace (marker k) new (marker k' @ template_text segs)"
      using replace_skip_run[OF k k' _ run, of "marker k' @ template_text segs" new] by blast
    show ?thesis
    proof (cases "k' = k")
      case True
      then show ?thesis
        using skip IH Var
        by (simp add: template_text_def substituted_simps replace_marker_same del: replace.simps)
    next
      case False
      then have "replace (marker k) new (marker k' @ template_text segs)
          = marker k' @ replace (marker k) new (template_text segs)"
        using replace_marker_other[OF k k'] by blast
      then show ?thesis
        using skip IH Var False
        by (simp add: template_text_def substituted_simps del: replace.simps)
    qed
  qed
qed

text \<open>
  Claim C5, as amended.  Take a template made of literal texts and of markers whose keys
  hold no brace, and a context whose keys hold no brace, such that at no step the literal
  text (the template's own and the values substituted so far) holds the marker of the
  key that is replaced next.  Then \<open>substitute_variables\<close> replaces every marker whose
  key is in the context by the text of the key's value and leaves every other marker and
  every literal text as it is.  Literal texts and values may hold braces, and a value may
  hold the marker of a key that was replaced before it.  (The function is a function of
  its two arguments only; it has no state to change.)
\<close>

theorem substitute_variables_renders:
  assumes "list_all key_plain segs" and "no_marker_forms ctx segs"
  shows "substitute_variables (template_text segs) ctx = concat (map (render_segment ctx) segs)"
  using assms
proof (induction ctx arbitrary: segs)
  case Nil
  have "render_segment [] seg = seg_text seg" for seg
    by (cases seg) (simp_all add: lookup_def)
  then have "render_segment [] = seg_text" by (rule ext)
  then show ?case by (simp add: template_text_def)
next
  case (Cons kv ctx)
  obtain k v where kv: "kv = (k, v)" by (cases kv)
  let ?segs' = "map (substituted k (py_str v)) segs"
  have bf: "brace_free k" and free: "literal_run_free (marker k) [] segs"
    and rest: "no_marker_forms ctx ?segs'"
    using Cons.prems(2) kv by simp_all
  have step: "replace (marker k) (py_str v) (template_text segs) = template_text ?segs'"
    using replace_runs[OF bf Cons.prems(1) free, of "py_str v"] by simp
  have plain': "list_all key_plain ?segs'"
    using Cons.prems(1) by (induction segs) (auto simp: substituted_def)
  have "substitute_variables (template_text segs) (kv # ctx)
      = concat (map (render_segment ctx) ?segs')"
    using Cons.IH[OF plain' rest] step kv by simp
  also have "map (render_segment ctx) ?segs' = map (render_segment (kv # ctx)) segs"
  proof -
    have "render_segment ctx (substituted k (py_str v) seg) = render_segment (kv # ctx) seg" for seg
      by (cases seg) (auto simp: kv lookup_def substituted_simps)
    then show ?thesis by simp
  qed
  finally show ?case .
qed

text \<open>
  The two examples of the specification, through the theorem; a template with single
  braces and an absent key, with a value in braces; and a value that holds the marker of
  an earlier key, which stays.
\<close>

theorem substitute_variables_renders_witness:
  "list_all key_plain [Lit ''Hello '', Var ''name'']
   \<and> no_marker_forms [(''name'', VStr ''Ana'')] [Lit ''Hello '', Var ''name'']
   \<and> no_marker_forms [] [Lit ''Hello '', Var ''name'']
   \<and> substitute_variables ''Hello {{name}}'' [(''name'', VStr ''Ana'')] = ''Hello Ana''
   \<and> substitute_variables ''Hello {{name}}'' [] = ''Hello {{name}}''
   \<and> list_all key_plain [Lit ''Reply as {json}: '', Var ''name'', Lit '' / '', Var ''other'']
   \<and> no_marker_forms [(''name'', VStr ''{Ana}'')]
         [Lit ''Reply as {json}: '', Var ''name'', Lit '' / '', Var ''other'']
   \<and> substitute_variables ''Reply as {json}: {{name}} / {{other}}'' [(''name'', VStr ''{Ana}'')]
       = ''Reply as {json}: {Ana} / {{other}}''
   \<and> list_all key_plain [Var ''b'', Lit ''-'', Var ''a'']
   \<and> no_marker_forms [(''a'', VInt 7), (''b'', VStr ''{{a}}'')] [Var ''b'', Lit ''-'', Var ''a'']
   \<and> substitute_variables ''{{b}}-{{a}}'' [(''a'', VInt 7), (''b'', VStr ''{{a}}'')] = ''{{a}}-7''"
proof -
  have segs: "list_all key_plain [Lit ''Hello '', Var ''name'']"
    by code_simp
  have ctx: "no_marker_forms [(''name'', VStr ''Ana'')] [Lit ''Hello '', Var ''name'']"
    by code_simp
  have empty: "no_marker_forms [] [Lit ''Hello '', Var ''name'']"
    by simp
  have tmpl: "template_text [Lit ''Hello '', Var ''name''] = ''Hello {{name}}''"
    by code_simp
  have out1: "concat (map (render_segment [(''name'', VStr ''Ana'')]) [Lit ''Hello '', Var ''name''])
      = ''Hello Ana''"
    by code_simp
  have out2: "concat (map (render_segment []) [Lit ''Hello '', Var ''name'']) = ''Hello {{name}}''"
    by code_simp
  have r1: "substitute_variables ''Hello {{name}}'' [(''name'', VStr ''Ana'')] = ''Hello Ana''"
    using substitute_variables_renders[OF segs ctx] unfolding tmpl out1 .
  have r2: "substitute_variables ''Hello {{name}}'' [] = ''Hello {{name}}''"
    using substitute_variables_renders[OF segs empty] unfolding tmpl out2 .
  have segs3: "list_all key_plain [Lit ''Reply as {json}: '', Var ''name'', Lit '' / '', Var ''other'']"
    by code_simp
  have ctx3: "no_marker_forms [(''name'', VStr ''{Ana}'')]
         [Lit ''Reply as {json}: '', Var ''name'', Lit '' / '', Var ''other'']"
    by code_simp
  have tmpl3: "template_text [Lit ''Reply as {json}: '', Var ''name'', Lit '' / '', Var ''other'']
      = ''Reply as {json}: {{name}} / {{other}}''"
    by code_simp
  have out3: "concat (map (render_segment [(''name'', VStr ''{Ana}'')])
        [Lit ''Reply as {json}: '', Var ''name'', Lit '' / '', Var ''other''])
      = ''Reply as {json}: {Ana} / {{other}}''"
    by code_simp
  have r3: "substitute_variables ''Reply as {json}: {{name}} / {{other}}'' [(''name'', VStr ''{Ana}'')]
       = ''Reply as {json}: {Ana} / {{other}}''"
    using substitute_variables_renders[OF segs3 ctx3] unfolding tmpl3 out3 .
  have segs4: "list_all key_plain [Var ''b'', Lit ''-'', Var ''a'']"
    by code_simp
  have ctx4: "no_marker_forms [(''a'', VInt 7), (''b'', VStr ''{{a}}'')] [Var ''b'', Lit ''-'', Var ''a'']"
    by code_simp
  have tmpl4: "template_text [Var ''b'', Lit ''-'', Var ''a''] = ''{{b}}-{{a}}''"
    by code_simp
  have out4: "concat (map (render_segment [(''a'', VInt 7), (''b'', VStr ''{{a}}'')])
        [Var ''b'', Lit ''-'', Var ''a'']) = ''{{a}}-7''"
    by code_simp
  have r4: "substitute_variables ''{{b}}-{{a}}'' [(''a'', VInt 7), (''b'', VStr ''{{a}}'')] = ''{{a}}-7''"
    using substitute_variables_renders[OF segs4 ctx4] unfolding tmpl4 out4 .
  show ?thesis
    using segs ctx empty r1 r2 segs3 ctx3 r3 segs4 ctx4 r4 by blast
qed

text \<open>
  Claim C5 as stated, for every text and context, fails.  Replacement runs key after key
  on the text so far, so a value that holds the marker of a later key is substituted
  again: with \<open>a\<close> bound to the text \<open>{{b}}\<close> and \<open>b\<close> bound to \<open>B\<close>, the template \<open>{{a}}\<close>
  becomes \<open>B\<close>, not the text of the value of \<open>a\<close>.  And keys with braces make markers
  that overlap: the marker of an absent key that holds the marker of \<open>a\<close> is changed, and
  a marker that is made of two markers of \<open>a\<close> is not replaced by its own value.
\<close>

theorem substitute_variables_chained_counterexample:
  "substitute_variables (template_text [Var ''a'']) [(''a'', VStr ''{{b}}''), (''b'', VStr ''B'')]
     = ''B''
   \<and> concat (map (render_segment [(''a'', VStr ''{{b}}''), (''b'', VStr ''B'')]) [Var ''a''])
     = ''{{b}}''
   \<and> substitute_variables (template_text [Var ''a'']) [(''a'', VStr ''{{b}}''), (''b'', VStr ''B'')]
     \<noteq> concat (map (render_segment [(''a'', VStr ''{{b}}''), (''b'', VStr ''B'')]) [Var ''a''])
   \<and> substitute_variables (template_text [Var ''x{{a}}'']) [(''a'', VInt 1)] = ''{{x1}}''
   \<and> concat (map (render_segment [(''a'', VInt 1)]) [Var ''x{{a}}'']) = ''{{x{{a}}}}''
   \<and> substitute_variables (template_text [Var ''a}}{{a''])
         [(''a'', VStr ''x''), (''a}}{{a'', VStr ''y'')] = ''xx''
   \<and> concat (map (render_segment [(''a'', VStr ''x''), (''a}}{{a'', VStr ''y'')]) [Var ''a}}{{a''])
       = ''y''"
  by code_simp

text \<open>A text that holds no marker of a key of the context comes back as it is.\<close>

lemma replace_absent:
  "old \<noteq> [] \<Longrightarrow> \<not> sublist old s \<Longrightarrow> replace old new s = s"
  by (induction s) (auto simp: sublist_Cons_right)

lemma substitute_variables_no_marker:
  "list_all (\<lambda>(k, v). \<not> sublist (marker k) s) ctx \<Longrightarrow> substitute_variables s ctx = s"
proof (induction ctx)
  case Nil
  then show ?case by simp
next
  case (Cons kv ctx)
  obtain k v where kv: "kv = (k, v)" by (cases kv)
  have "marker k \<noteq> []" by (simp add: marker_def)
  then show ?case
    using Cons replace_absent[of "marker k" s "py_str v"] unfolding kv by simp
qed

section \<open>The validator accepts exactly the structurally complete configurations\<close>

lemma validate_global_settings_iff:
  "validate_global_settings gs = Inr () \<longleftrightarrow> settings_complete gs"
  by (simp add: validate_global_settings_def settings_complete_def has_all_def split: option.splits)

lemma validate_agent_config_iff:
  "validate_agent_config ac = Inr () \<longleftrightarrow> agent_config_complete ac"
  by (simp add: validate_agent_config_def agent_config_complete_def)

lemma validate_next_stages_iff:
  "validate_next_stages sid nss sts = Inr () \<longleftrightarrow> list_all (transition_complete sts) nss"
  by (induction nss) (auto simp: transition_complete_def split: option.splits)

lemma validate_stage_iff:
  "validate_stage sid st sts = Inr () \<longleftrightarrow> stage_complete sts st"
  by (auto simp: validate_stage_def stage_complete_def validate_next_stages_iff split: option.splits)

lemma validate_stages_iff:
  "validate_stages rest sts = Inr () \<longleftrightarrow> list_all (\<lambda>(sid, st). stage_complete sts st) rest"
proof (induction rest)
  case Nil
  then show ?case by simp
next
  case (Cons p rest)
  obtain sid st where p: "p = (sid, st)" by (cases p)
  show ?case
    using Cons validate_stage_iff[of sid st sts] unfolding p
    by (cases "validate_stage sid st sts") auto
qed

lemma validate_stage_flow_iff:
  "validate_stage_flow fl = Inr () \<longleftrightarrow> flow_complete fl"
  by (simp add: validate_stage_flow_def flow_complete_def validate_stages_iff split: option.splits)

lemma validate_config_complete:
  "validate_config cfg = Inr () \<longleftrightarrow> structurally_complete cfg"
  by (auto simp: validate_config_def structurally_complete_def
        validate_global_settings_iff[symmetric] validate_agent_config_iff[symmetric]
        validate_stage_flow_iff[symmetric] split: option.splits sum.splits)

subsection \<open>Every rejection message reports a violation of the configuration\<close>

lemma validate_global_settings_reports:
  assumes "global_settings cfg = Some gs" "validate_global_settings gs = Inl msg"
  shows "reports cfg msg"
  using assms(2)
  by (auto simp: validate_global_settings_def has_all_def split: option.splits if_splits
      intro: reports.intros(4-9)[OF assms(1)])

lemma validate_agent_config_reports:
  assumes "agent_config cfg = Some ac" "validate_agent_config ac = Inl msg"
  shows "reports cfg msg"
proof -
  have a: "\<not> has_key f ac \<Longrightarrow> f \<in> {''name'', ''base_instructions''}
    \<Longrightarrow> reports cfg (''Missing '' @ f @ '' in agent_config'')" for f
    using reports.no_agent_field[OF assms(1)] by blast
  show ?thesis
    using assms(2) a[of "''name''"] a[of "''base_instructions''"]
    by (auto simp: validate_agent_config_def split: if_splits)
qed

lemma validate_next_stages_reports:
  assumes "flow cfg = Some fl" "stages fl = Some sts" "(sid, st) \<in> set sts"
    "next_stages st = Some nss"
  shows "set rest \<subseteq> set nss \<Longrightarrow> validate_next_stages sid rest sts = Inl msg \<Longrightarrow> reports cfg msg"
proof (induction rest)
  case Nil
  then show ?case by simp
next
  case (Cons ns rest)
  have mem: "ns \<in> set nss" using Cons.prems(1) by simp
  note r1 = reports.no_transition_target[OF assms mem]
  note r2 = reports.no_transition_condition[OF assms mem]
  note r3 = reports.transition_target_unknown[OF assms mem]
  show ?case
    using Cons r1 r2 r3
    by (auto split: option.splits if_splits)
qed

lemma validate_stage_reports:
  assumes "flow cfg = Some fl" "stages fl = Some sts" "(sid, st) \<in> set sts"
    "validate_stage sid st sts = Inl msg"
  shows "reports cfg msg"
proof -
  note f = reports.no_stage_field[OF assms(1-3)]
  have n: "next_stages st = Some nss \<Longrightarrow> validate_next_stages sid nss sts = Inl msg
    \<Longrightarrow> reports cfg msg" for nss
    using validate_next_stages_reports[OF assms(1-3), of nss nss msg] by simp
  show ?thesis
    using assms(4) f[of "''id''"] f[of "''name''"] f[of "''prompt''"]
      f[of "''completion_criteria''"] n
    by (auto simp: validate_stage_def missing_field_def split: if_splits option.splits)
qed

lemma validate_stages_reports:
  assumes "flow cfg = Some fl" "stages fl = Some sts"
  shows "set rest \<subseteq> set sts \<Longrightarrow> validate_stages rest sts = Inl msg \<Longrightarrow> reports cfg msg"
proof (induction rest)
  case Nil
  then show ?case by simp
next
  case (Cons p rest)
  obtain sid st where p: "p = (sid, st)" by (cases p)
  have mem: "(sid, st) \<in> set sts" using Cons.prems(1) p by simp
  show ?case
    using Cons validate_stage_reports[OF assms mem, of msg] unfolding p
    by (auto split: sum.splits)
qed

lemma validate_stage_flow_reports:
  assumes "flow cfg = Some fl" "validate_stage_flow fl = Inl msg"
  shows "reports cfg msg"
proof -
  have all: "stages fl = Some sts \<Longrightarrow> validate_stages sts sts = Inl msg \<Longrightarrow> reports cfg msg"
    for sts
    using validate_stages_reports[OF assms(1), of sts sts msg] by simp
  show ?thesis
    using assms(2) reports.no_start_stage[OF assms(1)] reports.no_stages[OF assms(1)]
      reports.start_stage_unknown[OF assms(1)] all
    by (auto simp: validate_stage_flow_def split: option.splits if_splits)
qed

lemma validate_config_rejection_reports:
  assumes "validate_config cfg = Inl msg"
  shows "reports cfg msg"
  using assms reports.no_global_settings[of cfg] reports.no_agent_config[of cfg]
    reports.no_flow[of cfg] validate_global_settings_reports[of cfg]
    validate_agent_config_reports[of cfg] validate_stage_flow_reports[of cfg]
  by (auto simp: validate_config_def split: option.splits sum.splits)

subsection \<open>The message raised is that of the first violation\<close>

lemma first_violation_append:
  "first_violation (xs @ ys) =
     (case first_violation xs of Inl msg \<Rightarrow> Inl msg | Inr _ \<Rightarrow> first_violation ys)"
  by (cases xs) simp_all

lemma first_violation_Nil_iff: "first_violation xs = Inr () \<longleftrightarrow> xs = []"
  by (cases xs) simp_all

lemma validate_global_settings_first:
  "validate_global_settings gs = first_violation (settings_violations gs)"
  by (simp add: validate_global_settings_def settings_violations_def absent_def has_all_def
      split: option.splits)

lemma validate_agent_config_first:
  "validate_agent_config ac = first_violation (agent_violations ac)"
  by (simp add: validate_agent_config_def agent_violations_def)

lemma validate_next_stages_first:
  "validate_next_stages sid nss sts
     = first_violation (concat (map (transition_violations sid sts) nss))"
  by (induction nss)
     (auto simp: transition_violations_def absent_def first_violation_append split: option.splits)

lemma validate_stage_first:
  "validate_stage sid st sts = first_violation (stage_violations sts (sid, st))"
  by (auto simp: validate_stage_def stage_violations_def absent_def missing_field_def
      validate_next_stages_first split: option.splits)

lemma validate_stages_first:
  "validate_stages rest sts = first_violation (concat (map (stage_violations sts) rest))"
proof (induction rest)
  case Nil
  then show ?case by simp
next
  case (Cons p rest)
  obtain sid st where p: "p = (sid, st)" by (cases p)
  show ?case
    using Cons unfolding p
    by (simp add: validate_stage_first first_violation_append split: sum.splits)
qed

lemma validate_stage_flow_first:
  "validate_stage_flow fl = first_violation (flow_violations fl)"
  by (simp add: validate_stage_flow_def flow_violations_def absent_def validate_stages_first
      split: option.splits)

lemma validate_config_first:
  "validate_config cfg = first_violation (violations cfg)"
  by (simp add: validate_config_def violations_def absent_def first_violation_append
      validate_global_settings_first validate_agent_config_first validate_stage_flow_first
      split: option.splits sum.splits)

text \<open>
  Claim C8, as amended.  For a configuration whose values have the shapes of the schema,
  \<open>validate_config\<close> returns normally exactly on the structurally complete
  configurations, and otherwise raises the message of the first violation in the order of
  the checks: the top-level keys; the settings sections, then their keys; the keys of the
  agent section; the start stage and the stages; then stage after stage the required
  fields and, transition after transition, the target, the condition and the existence of
  the target.  The message names the missing key, and the key of the offending stage for a
  violation inside a stage, except for a settings section that lacks one of its three
  keys, which is reported by the name of the section only.
\<close>

theorem validate_config_accepts_complete:
  "validate_config cfg = first_violation (violations cfg)
   \<and> (violations cfg = [] \<longleftrightarrow> structurally_complete cfg)
   \<and> (validate_config cfg = Inr () \<longleftrightarrow> structurally_complete cfg)
   \<and> (\<forall>msg. validate_config cfg = Inl msg \<longrightarrow> reports cfg msg)"
  using validate_config_first[of cfg] validate_config_complete[of cfg]
    validate_config_rejection_reports[of cfg] first_violation_Nil_iff[of "violations cfg"]
  by auto

text \<open>
  The example passes.  The empty configuration has three violations and the one of
  \<^verbatim>\<open>global_settings\<close> is raised.  The configuration with a violation in the TTS
  settings, one in the stage \<open>greeting\<close> and one in the stage \<open>billing\<close> raises the first;
  with its settings repaired it raises the one of \<open>greeting\<close>.
\<close>

theorem validate_config_accepts_complete_witness:
  "validate_config example_config = Inr () \<and> structurally_complete example_config
   \<and> violations empty_config =
       [''Missing required key in config: global_settings'',
        ''Missing required key in config: agent_config'',
        ''Missing required key in config: flow'']
   \<and> validate_config empty_config = Inl ''Missing required key in config: global_settings''
   \<and> violations broken_config =
       [''TTS settings missing required fields'',
        ''Stage '' @ quoted ''greeting'' @ '' missing required field: name'',
        ''Stage '' @ quoted ''billing'' @ '' references non-existent stage: nowhere'']
   \<and> validate_config broken_config = Inl ''TTS settings missing required fields''
   \<and> reports broken_config ''TTS settings missing required fields''
   \<and> validate_config (broken_config\<lparr>global_settings := Some example_settings\<rparr>)
       = Inl (''Stage '' @ quoted ''greeting'' @ '' missing required field: name'')"
proof -
  have v1: "violations example_config = []"
    by code_simp
  have v2: "violations empty_config =
       [''Missing required key in config: global_settings'',
        ''Missing required key in config: agent_config'',
        ''Missing required key in config: flow'']"
    by code_simp
  have v3: "violations broken_config =
       [''TTS settings missing required fields'',
        ''Stage '' @ quoted ''greeting'' @ '' missing required field: name'',
        ''Stage '' @ quoted ''billing'' @ '' references non-existent stage: nowhere'']"
    by code_simp
  have v4: "violations (broken_config\<lparr>global_settings := Some example_settings\<rparr>) =
       [''Stage '' @ quoted ''greeting'' @ '' missing required field: name'',
        ''Stage '' @ quoted ''billing'' @ '' references non-existent stage: nowhere'']"
    by code_simp
  have r1: "validate_config example_config = Inr () \<and> structurally_complete example_config"
    using validate_config_accepts_complete[of example_config] v1 by simp
  have r2: "validate_config empty_config = Inl ''Missing required key in config: global_settings''"
    using validate_config_accepts_complete[of empty_config] unfolding v2 by simp
  have r3: "validate_config broken_config = Inl ''TTS settings missing required fields''"
    using validate_config_accepts_complete[of broken_config] unfolding v3 by simp
  have r4: "reports broken_config ''TTS settings missing required fields''"
    using validate_config_accepts_complete[of broken_config] r3 by blast
  have r5: "validate_config (broken_config\<lparr>global_settings := Some example_settings\<rparr>)
       = Inl (''Stage '' @ quoted ''greeting'' @ '' missing required field: name'')"
    using validate_config_accepts_complete[of "broken_config\<lparr>global_settings := Some example_settings\<rparr>"]
    unfolding v4 by simp
  show ?thesis
    using r1 v2 r2 v3 r3 r4 r5 by blast
qed

text \<open>
  Claim C8 as stated fails in its last part: a configuration whose LLM settings lack the
  key \<^verbatim>\<open>model\<close> is rejected with a message that does not contain the name of the
  missing key.
\<close>

theorem validate_config_unnamed_field_counterexample:
  "validate_config no_model_config = Inl ''LLM settings missing required fields''
   \<and> \<not> str_contains ''model'' ''LLM settings missing required fields''"
  by code_simp

section \<open>The validator does not compare a stage's id with its key\<close>

lemma with_idents_keys:
  "keys (map (\<lambda>(sid, st). (sid, st\<lparr>ident := map_option (\<lambda>_. f sid) (ident st)\<rparr>)) sts) = keys sts"
  by (induction sts) (auto simp: keys_def)


lemma validate_next_stages_keys:
  "keys sts' = keys sts \<Longrightarrow> validate_next_stages sid nss sts' = validate_next_stages sid nss sts"
  by (induction nss) (auto simp: has_key_def split: option.splits)

lemma validate_stage_ident:
  "keys sts' = keys sts \<Longrightarrow>
   validate_stage sid (st\<lparr>ident := map_option (\<lambda>_. f sid) (ident st)\<rparr>) sts' = validate_stage sid st sts"
  using validate_next_stages_keys[where sts'=sts' and sts=sts and sid=sid]
  by (simp add: validate_stage_def split: option.splits)

lemma validate_stages_ident:
  "keys sts' = keys sts \<Longrightarrow>
   validate_stages (map (\<lambda>(sid, st). (sid, st\<lparr>ident := map_option (\<lambda>_. f sid) (ident st)\<rparr>)) rest) sts'
     = validate_stages rest sts"
proof (induction rest)
  case Nil
  then show ?case by simp
next
  case (Cons p rest)
  obtain sid st where p: "p = (sid, st)" by (cases p)
  show ?case
    using Cons validate_stage_ident[where sts'=sts' and sts=sts and sid=sid and st=st and f=f] unfolding p
    by (simp split: sum.splits)
qed

lemma validate_stage_flow_ident:
  "validate_stage_flow (fl\<lparr>stages := map_option
          (map (\<lambda>(sid, st). (sid, st\<lparr>ident := map_option (\<lambda>_. f sid) (ident st)\<rparr>)))
          (stages fl)\<rparr>) = validate_stage_flow fl"
proof (cases "stages fl")
  case None
  then show ?thesis by (simp add: validate_stage_flow_def split: option.splits)
next
  case (Some sts)
  let ?sts' = "map (\<lambda>(sid, st). (sid, st\<lparr>ident := map_option (\<lambda>_. f sid) (ident st)\<rparr>)) sts"
  have k: "keys ?sts' = keys sts" by (rule with_idents_keys)
  have "validate_stages ?sts' ?sts' = validate_stages sts sts"
    using validate_stages_ident[OF k, where f=f and rest=sts] .
  then show ?thesis
    using Some k by (simp add: validate_stage_flow_def has_key_def split: option.splits)
qed

text \<open>
  Claim C9, as amended.  Validation asks only that every stage has an \<^verbatim>\<open>id\<close>; it never
  compares the value with the key under which the stage is stored.  Whatever the ids of
  the stages are set to, the verdict of \<open>validate_config\<close>, with its message, is the same.
\<close>

theorem validate_config_ignores_ident_value:
  "validate_config (with_idents f cfg) = validate_config cfg"
  by (simp add: validate_config_def with_idents_def validate_stage_flow_ident
        split: option.splits sum.splits)

theorem validate_config_ignores_ident_value_witness:
  "validate_config (with_idents (\<lambda>key. ''welcome'') example_config) = Inr ()"
proof -
  have "validate_config example_config = Inr ()"
    by code_simp
  then show ?thesis
    using validate_config_ignores_ident_value[of "\<lambda>key. ''welcome''" example_config] by simp
qed

text \<open>
  Claim C9 as stated fails: the configuration whose stage \<open>greeting\<close> carries the id
  \<open>welcome\<close> is accepted.
\<close>

theorem validate_config_mismatched_ident_counterexample:
  "validate_config mismatched_config = Inr ()
   \<and> map_option ident (lookup mismatched_stages ''greeting'') = Some (Some ''welcome'')"
  by code_simp

section \<open>Dictionaries\<close>

lemma lookup_has_key: "lookup d k = Some v \<Longrightarrow> has_key k d"
  by (auto simp: lookup_def has_key_def keys_def dest: map_of_SomeD intro: rev_image_eqI)

lemma has_key_lookup: "has_key k d \<Longrightarrow> \<exists>v. lookup d k = Some v"
  by (cases "map_of d k") (auto simp: lookup_def has_key_def keys_def map_of_eq_None_iff)

lemma lookup_in_set: "lookup d k = Some v \<Longrightarrow> (k, v) \<in> set d"
  by (simp add: lookup_def map_of_SomeD)

lemma map_of_dict_set: "map_of (dict_set k v d) = (map_of d)(k \<mapsto> v)"
  by (induction d) (auto simp: fun_eq_iff)

lemma map_of_dict_update: "map_of (dict_update d other) = map_of d ++ map_of (rev other)"
  unfolding dict_update_def
proof (induction other arbitrary: d)
  case Nil
  then show ?case by simp
next
  case (Cons kv other)
  obtain k v where kv: "kv = (k, v)" by (cases kv)
  show ?case
    using Cons[of "dict_set k v d"] unfolding kv
    by (simp add: map_of_dict_set map_add_upd_left fun_eq_iff map_add_def split: option.splits)
qed

text \<open>Merging overwrites: the last value that \<open>other\<close> gives a key wins over that of \<open>d\<close>.\<close>

lemma lookup_dict_update:
  "lookup (dict_update d other) k =
     (case lookup (rev other) k of Some v \<Rightarrow> Some v | None \<Rightarrow> lookup d k)"
  unfolding lookup_def by (simp add: map_of_dict_update map_add_def)

section \<open>The resolver returns the first matching transition in priority order\<close>

lemma str_contains_sublist: "str_contains k s \<longleftrightarrow> sublist k s"
  by (induction s) (simp_all add: sublist_Cons_right)

lemma keyword_match_matches:
  "condition ns = Some c \<Longrightarrow>
   keyword_match (lower c) (lower user_input) = transition_matches user_input ns"
  by (simp add: keyword_match_def transition_matches_def str_contains_sublist)

lemma first_match_find:
  "list_all keyed nss \<Longrightarrow>
   first_match (lower user_input) nss =
     Inr (case find (transition_matches user_input) nss of None \<Rightarrow> None | Some ns \<Rightarrow> stage_id ns)"
proof (induction nss)
  case Nil
  then show ?case by simp
next
  case (Cons ns nss)
  then obtain c t where c: "condition ns = Some c" and t: "stage_id ns = Some t"
    by (auto simp: keyed_def)
  show ?case
    using Cons c t keyword_match_matches[OF c, of user_input] by simp
qed

lemma get_priority_declared: "get_priority ns = declared_priority ns"
  by (simp add: get_priority_def declared_priority_def)

lemma sorted_by_priority_order: "priority_order nss (sorted_by_priority nss)"
proof -
  have "sorted (map (\<lambda>ns. - get_priority ns) (sorted_by_priority nss))"
    by (simp add: sorted_by_priority_def)
  then have desc: "sorted_wrt (\<lambda>a b. declared_priority a \<ge> declared_priority b)
      (sorted_by_priority nss)"
    by (simp add: sorted_map get_priority_declared)
  have "filter (\<lambda>ns. declared_priority ns = p) (sorted_by_priority nss)
      = filter (\<lambda>ns. declared_priority ns = p) nss" for p
    using sort_key_stable[of "\<lambda>ns. - get_priority ns" "- p" nss]
    by (simp add: sorted_by_priority_def get_priority_declared)
  with desc show ?thesis by (simp add: priority_order_def)
qed

lemma keyed_sorted: "list_all keyed nss \<Longrightarrow> list_all keyed (sorted_by_priority nss)"
  by (simp add: list_all_iff sorted_by_priority_def)

subsection \<open>Without the sort: the highest priority, the first declared\<close>

lemma find_filter: "find Q (filter P xs) = find (\<lambda>x. P x \<and> Q x) xs"
  by (induction xs) auto

lemma find_sorted_first:
  "sorted (map f xs) \<Longrightarrow> find P xs = Some x \<Longrightarrow>
   (\<forall>m\<in>set xs. P m \<longrightarrow> f x \<le> f m) \<and> find P (filter (\<lambda>m. f m = f x) xs) = Some x"
proof (induction xs)
  case Nil
  then show ?case by simp
next
  case (Cons a xs)
  show ?case
  proof (cases "P a")
    case True
    then have "x = a" using Cons.prems(2) by simp
    then show ?thesis using True Cons.prems(1) by auto
  next
    case False
    then have "find P xs = Some x" using Cons.prems(2) by simp
    moreover have "sorted (map f xs)" using Cons.prems(1) by simp
    ultimately have "(\<forall>m\<in>set xs. P m \<longrightarrow> f x \<le> f m)
        \<and> find P (filter (\<lambda>m. f m = f x) xs) = Some x"
      by (rule Cons.IH[rotated])
    then show ?thesis using False by auto
  qed
qed

lemma find_sorted_by_priority:
  assumes "find P (sorted_by_priority nss) = Some x"
  shows "x \<in> set nss \<and> P x
    \<and> (\<forall>m\<in>set nss. P m \<longrightarrow> declared_priority m \<le> declared_priority x)
    \<and> find P (filter (\<lambda>m. declared_priority m = declared_priority x) nss) = Some x"
proof -
  let ?f = "\<lambda>ns. - get_priority ns"
  have sorted: "sorted (map ?f (sorted_by_priority nss))"
    by (simp add: sorted_by_priority_def)
  have first: "(\<forall>m\<in>set (sorted_by_priority nss). P m \<longrightarrow> ?f x \<le> ?f m)
      \<and> find P (filter (\<lambda>m. ?f m = ?f x) (sorted_by_priority nss)) = Some x"
    using find_sorted_first[OF sorted assms] .
  have stable: "filter (\<lambda>m. ?f m = ?f x) (sorted_by_priority nss) = filter (\<lambda>m. ?f m = ?f x) nss"
    unfolding sorted_by_priority_def by (rule sort_key_stable)
  have mem: "x \<in> set (sorted_by_priority nss) \<and> P x"
    using assms by (auto simp: find_Some_iff)
  have set: "set (sorted_by_priority nss) = set nss"
    by (simp add: sorted_by_priority_def)
  show ?thesis
    using first mem unfolding stable set by (simp add: get_priority_declared)
qed

lemma find_best_match:
  "(case find (transition_matches user_input) (sorted_by_priority nss) of
      None \<Rightarrow> None | Some ns \<Rightarrow> Some ns) = best_match user_input nss"
proof (cases "find (transition_matches user_input) (sorted_by_priority nss)")
  case None
  then have "\<forall>m\<in>set nss. \<not> transition_matches user_input m"
    by (auto simp: find_None_iff sorted_by_priority_def)
  then have "filter (transition_matches user_input) nss = []"
    by (auto simp: filter_empty_conv)
  then show ?thesis using None by (simp add: best_match_def)
next
  case (Some x)
  let ?P = "transition_matches user_input"
  let ?ms = "filter ?P nss"
  have x: "x \<in> set nss" "?P x"
    and top: "\<forall>m\<in>set nss. ?P m \<longrightarrow> declared_priority m \<le> declared_priority x"
    and first: "find ?P (filter (\<lambda>m. declared_priority m = declared_priority x) nss) = Some x"
    using find_sorted_by_priority[OF Some] by simp_all
  have ne: "?ms \<noteq> []"
    using x by (auto simp: filter_empty_conv)
  have "Max (set (map declared_priority ?ms)) = declared_priority x"
    using x top by (intro Max_eqI) auto
  moreover have "find (\<lambda>m. declared_priority m = declared_priority x) ?ms = Some x"
    using first by (simp add: find_filter conj_commute)
  ultimately show ?thesis
    using Some ne by (simp add: best_match_def)
qed

text \<open>
  Claim C4.  For a current stage of the stage graph: when the stage declares no
  \<^verbatim>\<open>next_stages\<close>, \<open>find_next_stage\<close> returns none.  Otherwise, every transition having a
  target and a condition, it returns the target of the first transition, in the list
  sorted by descending priority (a missing priority counting as 50, equal priorities in
  the order of declaration), for which some whitespace-separated token of the lower-cased
  condition is a substring of the lower-cased input, and none when no transition matches.
  That transition is, among the matching ones, the first declared of those with the
  highest priority.
\<close>

theorem find_next_stage_first_match:
  assumes "lookup sts cur_id = Some cur"
  shows "(next_stages cur = None \<longrightarrow> find_next_stage user_input cur_id sts = Inr None)
    \<and> (\<forall>nss. next_stages cur = Some nss \<and> list_all keyed nss \<longrightarrow>
          priority_order nss (sorted_by_priority nss)
          \<and> find_next_stage user_input cur_id sts =
              Inr (case find (transition_matches user_input) (sorted_by_priority nss) of
                     None \<Rightarrow> None
                   | Some ns \<Rightarrow> stage_id ns)
          \<and> find_next_stage user_input cur_id sts =
              Inr (case best_match user_input nss of None \<Rightarrow> None | Some ns \<Rightarrow> stage_id ns))"
proof -
  have best: "(case find (transition_matches user_input) (sorted_by_priority nss) of
                 None \<Rightarrow> None | Some ns \<Rightarrow> stage_id ns)
      = (case best_match user_input nss of None \<Rightarrow> None | Some ns \<Rightarrow> stage_id ns)" for nss
    using find_best_match[of user_input nss]
    by (cases "find (transition_matches user_input) (sorted_by_priority nss)") auto
  show ?thesis
    using assms first_match_find[OF keyed_sorted] sorted_by_priority_order best
    by (simp add: find_next_stage_def)
qed

text \<open>
  The stage \<open>menu\<close> declares its transitions from the lowest priority upwards.  An input
  that matches the transitions of priority 10, none and 50 resolves to the one without
  a priority, which counts as 50 and is declared before the one with 50; an input that
  also matches the transition of priority 90 resolves to that one, and an input that also
  matches the transition of priority 100 to \<open>END\<close>.  At \<open>greeting\<close> in the example flow, the
  input \<open>I need to pay my bill\<close> resolves to \<open>billing\<close>; an input without a keyword, and
  a stage without transitions, resolve to none.
\<close>

theorem find_next_stage_first_match_witness:
  "lookup menu_stages ''menu'' = Some menu_stage
   \<and> next_stages menu_stage = Some menu_transitions
   \<and> list_all keyed menu_transitions
   \<and> map stage_id (sorted_by_priority menu_transitions)
       = [Some ''END'', Some ''top'', Some ''plain'', Some ''fifty'', Some ''low'']
   \<and> find_next_stage ''I want to PAY an invoice'' ''menu'' menu_stages = Inr (Some ''plain'')
   \<and> find_next_stage ''my BILL, I want to pay'' ''menu'' menu_stages = Inr (Some ''top'')
   \<and> find_next_stage ''cancel my bill payment'' ''menu'' menu_stages = Inr (Some ''END'')
   \<and> find_next_stage ''Good morning'' ''menu'' menu_stages = Inr None
   \<and> lookup example_stages ''greeting'' = Some greeting_stage
   \<and> find_next_stage ''I need to pay my bill'' ''greeting'' example_stages = Inr (Some ''billing'')
   \<and> lookup closing_stages ''goodbye'' = Some goodbye_stage
   \<and> next_stages goodbye_stage = None
   \<and> find_next_stage ''bye'' ''goodbye'' closing_stages = Inr None"
proof -
  have cur: "lookup menu_stages ''menu'' = Some menu_stage"
    by code_simp
  have nss: "next_stages menu_stage = Some menu_transitions"
    by code_simp
  have keyed: "list_all keyed menu_transitions"
    by code_simp
  have order: "map stage_id (sorted_by_priority menu_transitions)
       = [Some ''END'', Some ''top'', Some ''plain'', Some ''fifty'', Some ''low'']"
    by code_simp
  have b1: "(case best_match ''I want to PAY an invoice'' menu_transitions of
               None \<Rightarrow> None | Some ns \<Rightarrow> stage_id ns) = Some ''plain''"
    by code_simp
  have b2: "(case best_match ''my BILL, I want to pay'' menu_transitions of
               None \<Rightarrow> None | Some ns \<Rightarrow> stage_id ns) = Some ''top''"
    by code_simp
  have b3: "(case best_match ''cancel my bill payment'' menu_transitions of
               None \<Rightarrow> None | Some ns \<Rightarrow> stage_id ns) = Some ''END''"
    by code_simp
  have b4: "(case best_match ''Good morning'' menu_transitions of
               None \<Rightarrow> None | Some ns \<Rightarrow> stage_id ns) = None"
    by code_simp
  have menu: "find_next_stage user_input ''menu'' menu_stages =
      Inr (case best_match user_input menu_transitions of None \<Rightarrow> None | Some ns \<Rightarrow> stage_id ns)"
    for user_input
    using find_next_stage_first_match[OF cur, of user_input] nss keyed by blast
  have r1: "find_next_stage ''I want to PAY an invoice'' ''menu'' menu_stages = Inr (Some ''plain'')"
    using menu[of "''I want to PAY an invoice''"] unfolding b1 .
  have r2: "find_next_stage ''my BILL, I want to pay'' ''menu'' menu_stages = Inr (Some ''top'')"
    using menu[of "''my BILL, I want to pay''"] unfolding b2 .
  have r3: "find_next_stage ''cancel my bill payment'' ''menu'' menu_stages = Inr (Some ''END'')"
    using menu[of "''cancel my bill payment''"] unfolding b3 .
  have r4: "find_next_stage ''Good morning'' ''menu'' menu_stages = Inr None"
    using menu[of "''Good morning''"] unfolding b4 .
  let ?nss = "[\<lparr>stage_id = Some ''billing'', condition = Some ''bill payment'', priority = Some 100\<rparr>]"
  have cur5: "lookup example_stages ''greeting'' = Some greeting_stage"
    by code_simp
  have nss5: "next_stages greeting_stage = Some ?nss"
    by code_simp
  have keyed5: "list_all keyed ?nss"
    by code_simp
  have b5: "(case best_match ''I need to pay my bill'' ?nss of
               None \<Rightarrow> None | Some ns \<Rightarrow> stage_id ns) = Some ''billing''"
    by code_simp
  have "find_next_stage ''I need to pay my bill'' ''greeting'' example_stages =
      Inr (case best_match ''I need to pay my bill'' ?nss of None \<Rightarrow> None | Some ns \<Rightarrow> stage_id ns)"
    using find_next_stage_first_match[OF cur5, of "''I need to pay my bill''"] nss5 keyed5 by blast
  then have r5: "find_next_stage ''I need to pay my bill'' ''greeting'' example_stages
      = Inr (Some ''billing'')"
    unfolding b5 .
  have bye: "lookup closing_stages ''goodbye'' = Some goodbye_stage"
    by code_simp
  have none: "next_stages goodbye_stage = None"
    by code_simp
  have r6: "find_next_stage ''bye'' ''goodbye'' closing_stages = Inr None"
    using find_next_stage_first_match[OF bye, of "''bye''"] none by blast
  show ?thesis
    using cur nss keyed order r1 r2 r3 r4 cur5 r5 bye none r6 by blast
qed

text \<open>
  Case and whitespace beyond ASCII: the capital E with acute accent has a lower case,
  the multiplication sign has none, and the no-break space and the next-line control
  separate tokens.
\<close>

lemma lower_split_examples:
  "lower [CHR 0xC9, CHR ''A'', CHR 0xD7, CHR 0xDE] = [CHR 0xE9, CHR ''a'', CHR 0xD7, CHR 0xFE]
   \<and> split [CHR ''p'', CHR 0xA0, CHR ''b'', CHR 0x85, CHR ''c''] = [''p'', ''b'', ''c'']"
  by code_simp

section \<open>Entering a stage\<close>

lemma update_stage_context_fields:
  "update_stage_context st p s = (r, s') \<Longrightarrow>
   conversation_history s' = conversation_history s \<and> context_map s' = context_map s
   \<and> said s' = said s \<and> current_stage_id s' = current_stage_id s
   \<and> self_stages s' = self_stages s \<and> userdata_stages s' = userdata_stages s"
  by (auto simp: update_stage_context_def split: option.splits sum.splits)

lemma update_stage_context_not_rejected:
  "\<not> is_rejection (fst (update_stage_context st p s))"
  by (simp add: update_stage_context_def split: option.splits sum.splits)

lemma enter_stage_not_rejected:
  "has_key sid (self_stages s) \<Longrightarrow> \<not> is_rejection (fst (enter_stage now sid s))"
proof -
  assume "has_key sid (self_stages s)"
  then obtain st where "lookup (self_stages s) sid = Some st"
    using has_key_lookup by blast
  then show ?thesis
    by (simp add: enter_stage_def Let_def update_stage_context_not_rejected split: option.splits)
qed

lemma enter_stage_frame:
  "self_stages (snd (enter_stage now sid s)) = self_stages s
   \<and> userdata_stages (snd (enter_stage now sid s)) = userdata_stages s
   \<and> current_stage_id (snd (enter_stage now sid s)) = sid"
proof (cases "enter_stage now sid s")
  case (Pair r s')
  then show ?thesis
    by (auto simp: enter_stage_def Let_def split: option.splits
        dest!: update_stage_context_fields)
qed

text \<open>
  For a stage id that is not in the stage graph, \<open>enter_stage\<close> reports the unknown stage
  and leaves the context, the history and the spoken texts as they are, but it has
  already stored the id as the current stage: the assignment of line 272 comes before the
  check of line 275.
\<close>

lemma enter_stage_unknown:
  "\<not> has_key sid (self_stages s) \<Longrightarrow>
   enter_stage now sid s = (StageNotFound sid, s\<lparr>current_stage_id := sid\<rparr>)"
  using lookup_has_key[of "self_stages s" sid]
  by (cases "lookup (self_stages s) sid") (simp_all add: enter_stage_def Let_def)

text \<open>
  Claim C1, at a failing input.  In the example session, which is in the stage
  \<open>greeting\<close>, entering the unknown stage \<open>nowhere\<close> is reported as not found and leaves the
  session with \<open>nowhere\<close> as its current stage, which is no stage of the graph.
\<close>

theorem enter_stage_unknown_moves_current_stage:
  "enter_stage ''t1'' ''nowhere'' example_session
     = (StageNotFound ''nowhere'', example_session\<lparr>current_stage_id := ''nowhere''\<rparr>)
   \<and> \<not> has_key ''nowhere'' (self_stages example_session)
   \<and> current_stage_id example_session = ''greeting''
   \<and> current_stage_id (snd (enter_stage ''t1'' ''nowhere'' example_session)) = ''nowhere''"
  by code_simp

text \<open>
  Claim C6.  When \<open>enter_stage\<close> runs to its end on a stage of the graph, the history is
  the old history followed by exactly one entry: its role is \<open>assistant\<close>, its content is
  the stage's prompt with the variables of the context substituted, the context being the
  one after the stage's context updates are merged in, and it carries the id of the
  entered stage.  The rendered greeting goes to the speech output, not to the history.
\<close>

theorem enter_stage_appends_prompt:
  assumes "lookup (self_stages s) sid = Some st" and "enter_stage now sid s = (Entered, s')"
  shows "\<exists>g p. greeting st = Some g \<and> prompt st = Some p
     \<and> context_map s' = merged_context st (context_map s)
     \<and> conversation_history s' = conversation_history s @
          [\<lparr>role = ''assistant'',
            content = substitute_variables p (merged_context st (context_map s)),
            entry_stage_id = sid, timestamp = now\<rparr>]
     \<and> said s' = said s @ [substitute_variables g (merged_context st (context_map s))]
     \<and> current_stage_id s' = sid"
proof -
  have merged: "context_map (case context_updates st of None \<Rightarrow> s\<lparr>current_stage_id := sid\<rparr>
          | Some upd \<Rightarrow> s\<lparr>current_stage_id := sid,
              context_map := dict_update (context_map s) upd\<rparr>)
        = merged_context st (context_map s)"
    by (simp add: merged_context_def split: option.splits)
  show ?thesis
    using assms merged
    by (auto simp: enter_stage_def Let_def split: option.splits
        dest!: update_stage_context_fields)
qed

text \<open>
  Entering \<open>billing\<close> in the example session: the one history entry holds the rendered
  prompt, with the \<open>department\<close> that the stage itself has just put into the context, and
  the rendered greeting is what was spoken.
\<close>

theorem enter_stage_appends_prompt_witness:
  "lookup (self_stages example_session) ''billing'' = Some billing_stage
   \<and> fst (enter_stage ''t1'' ''billing'' example_session) = Entered
   \<and> conversation_history (snd (enter_stage ''t1'' ''billing'' example_session))
       = [\<lparr>role = ''assistant'', content = ''Help Ana in billing'',
           entry_stage_id = ''billing'', timestamp = ''t1''\<rparr>]
   \<and> said (snd (enter_stage ''t1'' ''billing'' example_session))
       = [''Let us look at your bill, Ana.'']"
proof -
  have st: "lookup (self_stages example_session) ''billing'' = Some billing_stage"
    by code_simp
  have entered: "fst (enter_stage ''t1'' ''billing'' example_session) = Entered"
    by code_simp
  then have run: "enter_stage ''t1'' ''billing'' example_session
      = (Entered, snd (enter_stage ''t1'' ''billing'' example_session))"
    by (metis prod.collapse)
  have facts: "greeting billing_stage = Some ''Let us look at your bill, {{user_name}}.''"
    "prompt billing_stage = Some ''Help {{user_name}} in {{department}}''"
    "conversation_history example_session = []" "said example_session = []"
    "substitute_variables ''Help {{user_name}} in {{department}}''
       (merged_context billing_stage (context_map example_session)) = ''Help Ana in billing''"
    "substitute_variables ''Let us look at your bill, {{user_name}}.''
       (merged_context billing_stage (context_map example_session)) = ''Let us look at your bill, Ana.''"
    by code_simp+
  show ?thesis
    using st entered facts enter_stage_appends_prompt[OF st run]
    by auto
qed

lemma enter_stage_says:
  assumes "lookup (self_stages s) sid = Some st"
  shows "said (snd (enter_stage now sid s)) = said s
    \<or> (\<exists>g. greeting st = Some g
         \<and> said (snd (enter_stage now sid s))
             = said s @ [substitute_variables g (merged_context st (context_map s))])"
proof (cases "enter_stage now sid s")
  case (Pair r s')
  have merged: "context_map (case context_updates st of None \<Rightarrow> s\<lparr>current_stage_id := sid\<rparr>
          | Some upd \<Rightarrow> s\<lparr>current_stage_id := sid,
              context_map := dict_update (context_map s) upd\<rparr>)
        = merged_context st (context_map s)"
    by (simp add: merged_context_def split: option.splits)
  have u: "said (case context_updates st of None \<Rightarrow> s\<lparr>current_stage_id := sid\<rparr>
          | Some upd \<Rightarrow> s\<lparr>current_stage_id := sid,
              context_map := dict_update (context_map s) upd\<rparr>) = said s"
    by (simp split: option.splits)
  show ?thesis
    using assms Pair merged u
    by (auto simp: enter_stage_def Let_def split: option.splits
        dest!: update_stage_context_fields)
qed

subsection \<open>When entering a stage succeeds\<close>

lemma session_ok_stage:
  "session_ok s \<Longrightarrow> lookup (self_stages s) k = Some st \<Longrightarrow> stage_complete (self_stages s) st"
  by (auto simp: session_ok_def list_all_iff dest: lookup_in_set)






section \<open>Requested transitions\<close>

lemma transition_targets_complete:
  "list_all (transition_complete sts) nss \<Longrightarrow>
   transition_targets nss = Inr (List.map_filter stage_id nss)"
  by (induction nss) (auto simp: transition_complete_def split: option.splits)

lemma valid_transitions_complete:
  "stage_complete sts st \<Longrightarrow> valid_transitions st = Inr (declared_targets st)"
  by (auto simp: stage_complete_def valid_transitions_def declared_targets_def
      transition_targets_complete split: option.splits)

lemma declared_target_known:
  "stage_complete sts st \<Longrightarrow> t \<in> set (declared_targets st) \<Longrightarrow> t = ''END'' \<or> has_key t sts"
  by (auto simp: stage_complete_def declared_targets_def transition_complete_def
      map_filter_def list_all_iff split: option.splits)

lemma move_to_declared_target:
  assumes "session_ok s" and "lookup (self_stages s) (current_stage_id s) = Some cur"
    and "t \<in> set (declared_targets cur)" and "t \<noteq> ''END''"
  shows "has_key t (self_stages s) \<and> move_to_next_stage now t s = enter_stage now t s"
proof -
  have ud: "userdata_stages s = self_stages s"
    using assms(1) by (simp add: session_ok_def)
  have complete: "stage_complete (self_stages s) cur"
    using session_ok_stage[OF assms(1,2)] .
  have known: "has_key t (self_stages s)"
    using declared_target_known[OF complete assms(3)] assms(4) by simp
  show ?thesis
    using assms(2-4) ud known valid_transitions_complete[OF complete]
    by (simp add: move_to_next_stage_def)
qed

text \<open>
  In every session, a call with a target other than \<open>END\<close> either is the call of
  \<open>enter_stage\<close> on the target or returns the session as it was.
\<close>

lemma move_to_next_stage_frame:
  "target \<noteq> ''END'' \<Longrightarrow>
   move_to_next_stage now target s = enter_stage now target s
   \<or> snd (move_to_next_stage now target s) = s"
  by (simp add: move_to_next_stage_def split: option.splits sum.splits)

text \<open>
  Claim C2.  In a session on a validated configuration, \<open>move_to_next_stage\<close> with a
  target other than \<open>END\<close> is rejected exactly when the target is no key of the stage graph
  or is not among the targets that the current stage declares: in the first case as an
  unknown target, in the second as an invalid transition that names the current stage,
  the target and the valid targets, and in both the session is returned as it was.  In
  the remaining case the result is that of \<open>enter_stage\<close> on the target.
\<close>

theorem move_to_next_stage_validates:
  assumes "session_ok s" and "target \<noteq> ''END''"
    and "lookup (self_stages s) (current_stage_id s) = Some cur"
  shows "(is_rejection (fst (move_to_next_stage now target s))
            \<longleftrightarrow> \<not> has_key target (self_stages s) \<or> target \<notin> set (declared_targets cur))
    \<and> (\<not> has_key target (self_stages s)
          \<longrightarrow> move_to_next_stage now target s = (TargetNotFound target, s))
    \<and> (has_key target (self_stages s) \<and> target \<notin> set (declared_targets cur)
          \<longrightarrow> move_to_next_stage now target s
              = (InvalidTransition (current_stage_id s) target (declared_targets cur), s))
    \<and> (has_key target (self_stages s) \<and> target \<in> set (declared_targets cur)
          \<longrightarrow> move_to_next_stage now target s = enter_stage now target s)"
proof -
  have ud: "userdata_stages s = self_stages s"
    using assms(1) by (simp add: session_ok_def)
  have valid: "valid_transitions cur = Inr (declared_targets cur)"
    using session_ok_stage[OF assms(1,3)] by (rule valid_transitions_complete)
  show ?thesis
    using assms(2,3) ud valid enter_stage_not_rejected[of target s now]
    by (auto simp: move_to_next_stage_def)
qed

text \<open>
  In the example session, at \<open>greeting\<close>: \<open>nowhere\<close> is an unknown target, \<open>greeting\<close> is a
  stage but no declared target, and \<open>billing\<close> is entered.
\<close>

theorem move_to_next_stage_validates_witness:
  "session_ok example_session
   \<and> lookup (self_stages example_session) (current_stage_id example_session) = Some greeting_stage
   \<and> move_to_next_stage ''t1'' ''nowhere'' example_session
       = (TargetNotFound ''nowhere'', example_session)
   \<and> move_to_next_stage ''t1'' ''greeting'' example_session
       = (InvalidTransition ''greeting'' ''greeting'' [''billing''], example_session)
   \<and> move_to_next_stage ''t1'' ''billing'' example_session
       = enter_stage ''t1'' ''billing'' example_session
   \<and> current_stage_id (snd (enter_stage ''t1'' ''billing'' example_session)) = ''billing''"
proof -
  have ok: "session_ok example_session"
    by code_simp
  have cur: "lookup (self_stages example_session) (current_stage_id example_session)
      = Some greeting_stage"
    by code_simp
  have facts: "\<not> has_key ''nowhere'' (self_stages example_session)"
    "has_key ''greeting'' (self_stages example_session)"
    "has_key ''billing'' (self_stages example_session)"
    "declared_targets greeting_stage = [''billing'']"
    "current_stage_id example_session = ''greeting''"
    "current_stage_id (snd (enter_stage ''t1'' ''billing'' example_session)) = ''billing''"
    by code_simp+
  show ?thesis
    using ok cur facts
      move_to_next_stage_validates[OF ok _ cur, of "''nowhere''" "''t1''"]
      move_to_next_stage_validates[OF ok _ cur, of "''greeting''" "''t1''"]
      move_to_next_stage_validates[OF ok _ cur, of "''billing''" "''t1''"]
    by simp
qed

text \<open>
  Claim C3, as amended.  \<open>move_to_next_stage\<close> with the target \<open>END\<close> speaks the closing
  message and does nothing else: it does not enter a stage, and the current stage, the
  context and the history are what they were.  The session keeps no mark that the
  conversation has ended.
\<close>

theorem move_to_next_stage_END:
  "move_to_next_stage now ''END'' s = (Ended, s\<lparr>said := said s @ [farewell]\<rparr>)
   \<and> current_stage_id (snd (move_to_next_stage now ''END'' s)) = current_stage_id s
   \<and> context_map (snd (move_to_next_stage now ''END'' s)) = context_map s
   \<and> conversation_history (snd (move_to_next_stage now ''END'' s)) = conversation_history s"
  by (simp add: move_to_next_stage_def)

theorem move_to_next_stage_END_witness:
  "move_to_next_stage ''t1'' ''END'' example_session
     = (Ended, example_session\<lparr>said := [farewell]\<rparr>)"
proof -
  have "said example_session = []"
    by code_simp
  then show ?thesis
    using move_to_next_stage_END[of "''t1''" example_session] by simp
qed

text \<open>
  Claim C3 as stated fails: there is no terminal state.  After \<open>END\<close> the example session
  is still in the stage \<open>greeting\<close>, and a transition to \<open>billing\<close> is accepted and entered.
\<close>

theorem move_to_next_stage_END_not_terminal_counterexample:
  "current_stage_id (snd (move_to_next_stage ''t1'' ''END'' example_session)) = ''greeting''
   \<and> fst (move_to_next_stage ''t2'' ''billing''
             (snd (move_to_next_stage ''t1'' ''END'' example_session))) = Entered
   \<and> current_stage_id (snd (move_to_next_stage ''t2'' ''billing''
             (snd (move_to_next_stage ''t1'' ''END'' example_session)))) = ''billing''"
  by code_simp

section \<open>Ending the conversation\<close>

text \<open>
  Claim C7, as amended.  In a session on a validated configuration, \<open>end_conversation\<close>
  follows this order of preference.  If \<open>completion\<close> is among the targets the current
  stage declares, it calls \<open>move_to_next_stage\<close> on it, which enters the stage
  \<open>completion\<close>: what is spoken then is at most that stage's greeting, and the default
  closing message is not used.  Else if \<open>goodbye\<close> is among the declared targets, it does
  the same with \<open>goodbye\<close>.  Else if the stage graph has a stage \<open>goodbye\<close>, it enters
  that stage directly, with no check of the transition.  Otherwise it speaks the default
  closing message and changes nothing else; the session keeps no mark that the
  conversation has ended.
\<close>

theorem end_conversation_preference:
  assumes "session_ok s" and "lookup (self_stages s) (current_stage_id s) = Some cur"
  shows "(''completion'' \<in> set (declared_targets cur) \<longrightarrow>
            end_conversation now s = move_to_next_stage now ''completion'' s
          \<and> end_conversation now s = enter_stage now ''completion'' s
          \<and> (\<exists>st. lookup (self_stages s) ''completion'' = Some st
                \<and> (said (snd (end_conversation now s)) = said s
                   \<or> (\<exists>g. greeting st = Some g
                        \<and> said (snd (end_conversation now s)) = said s @
                            [substitute_variables g (merged_context st (context_map s))]))))
    \<and> (''completion'' \<notin> set (declared_targets cur) \<and> ''goodbye'' \<in> set (declared_targets cur) \<longrightarrow>
            end_conversation now s = move_to_next_stage now ''goodbye'' s
          \<and> end_conversation now s = enter_stage now ''goodbye'' s)
    \<and> (''completion'' \<notin> set (declared_targets cur) \<and> ''goodbye'' \<notin> set (declared_targets cur)
          \<and> has_key ''goodbye'' (self_stages s) \<longrightarrow>
            end_conversation now s = enter_stage now ''goodbye'' s)
    \<and> (''completion'' \<notin> set (declared_targets cur) \<and> ''goodbye'' \<notin> set (declared_targets cur)
          \<and> \<not> has_key ''goodbye'' (self_stages s) \<longrightarrow>
            end_conversation now s = (Ended, s\<lparr>said := said s @ [farewell]\<rparr>))"
proof -
  have ud: "userdata_stages s = self_stages s"
    using assms(1) by (simp add: session_ok_def)
  have valid: "valid_transitions cur = Inr (declared_targets cur)"
    using session_ok_stage[OF assms] by (rule valid_transitions_complete)
  have move: "t \<in> set (declared_targets cur) \<Longrightarrow> t \<noteq> ''END'' \<Longrightarrow>
      has_key t (self_stages s) \<and> move_to_next_stage now t s = enter_stage now t s" for t
    using move_to_declared_target[OF assms] by blast
  have steps: "end_conversation now s =
      (if ''completion'' \<in> set (declared_targets cur) then enter_stage now ''completion'' s
       else if ''goodbye'' \<in> set (declared_targets cur) then enter_stage now ''goodbye'' s
       else if has_key ''goodbye'' (self_stages s) then enter_stage now ''goodbye'' s
       else (Ended, s\<lparr>said := said s @ [farewell]\<rparr>))"
    using assms(2) ud valid move[of "''completion''"] move[of "''goodbye''"]
    by (simp add: end_conversation_def)
  have spoken: "\<exists>st. lookup (self_stages s) ''completion'' = Some st
        \<and> (said (snd (end_conversation now s)) = said s
           \<or> (\<exists>g. greeting st = Some g
                \<and> said (snd (end_conversation now s)) = said s @
                    [substitute_variables g (merged_context st (context_map s))]))"
    if c: "''completion'' \<in> set (declared_targets cur)"
  proof -
    have "has_key ''completion'' (self_stages s)"
      using move[OF c] by simp
    then obtain st where st: "lookup (self_stages s) ''completion'' = Some st"
      using has_key_lookup by blast
    have "end_conversation now s = enter_stage now ''completion'' s"
      using steps c by simp
    then show ?thesis
      using st enter_stage_says[OF st, of now] by auto
  qed
  show ?thesis
    using steps spoken move[of "''completion''"] move[of "''goodbye''"]
    by simp
qed

text \<open>
  In the session that is in \<open>billing\<close>, whose transitions lead to \<open>goodbye\<close> and to
  \<open>completion\<close>, the stage \<open>completion\<close> is entered and its greeting is spoken; from the
  stage \<open>completion\<close>, which leads to \<open>END\<close> only, the stage \<open>goodbye\<close> is entered because it
  exists; and the example session, with no such stage, gets the default closing message.
\<close>

theorem end_conversation_preference_witness:
  "session_ok closing_session
   \<and> end_conversation ''t1'' closing_session = enter_stage ''t1'' ''completion'' closing_session
   \<and> said (snd (end_conversation ''t1'' closing_session)) = [''Is there anything else, Ana?'']
   \<and> end_conversation ''t1'' (closing_session\<lparr>current_stage_id := ''completion''\<rparr>)
       = enter_stage ''t1'' ''goodbye'' (closing_session\<lparr>current_stage_id := ''completion''\<rparr>)
   \<and> session_ok example_session
   \<and> end_conversation ''t1'' example_session = (Ended, example_session\<lparr>said := [farewell]\<rparr>)"
proof -
  let ?c = "closing_session\<lparr>current_stage_id := ''completion''\<rparr>"
  have ok1: "session_ok closing_session" by code_simp
  have ok2: "session_ok ?c" by code_simp
  have ok3: "session_ok example_session" by code_simp
  have cur1: "lookup (self_stages closing_session) (current_stage_id closing_session)
      = Some (billing_stage\<lparr>next_stages := Some
         [\<lparr>stage_id = Some ''goodbye'', condition = Some ''bye'', priority = None\<rparr>,
          \<lparr>stage_id = Some ''completion'', condition = Some ''done paid'', priority = Some 80\<rparr>]\<rparr>)"
    by code_simp
  have cur2: "lookup (self_stages ?c) (current_stage_id ?c) = Some completion_stage"
    by code_simp
  have cur3: "lookup (self_stages example_session) (current_stage_id example_session)
      = Some greeting_stage"
    by code_simp
  have t1: "''completion'' \<in> set (declared_targets (billing_stage\<lparr>next_stages := Some
         [\<lparr>stage_id = Some ''goodbye'', condition = Some ''bye'', priority = None\<rparr>,
          \<lparr>stage_id = Some ''completion'', condition = Some ''done paid'', priority = Some 80\<rparr>]\<rparr>))"
    by code_simp
  have t2: "''completion'' \<notin> set (declared_targets completion_stage)"
    "''goodbye'' \<notin> set (declared_targets completion_stage)"
    "has_key ''goodbye'' (self_stages ?c)"
    by code_simp+
  have t3: "''completion'' \<notin> set (declared_targets greeting_stage)"
    "''goodbye'' \<notin> set (declared_targets greeting_stage)"
    "\<not> has_key ''goodbye'' (self_stages example_session)"
    "said example_session = []"
    by code_simp+
  have said1: "said (snd (enter_stage ''t1'' ''completion'' closing_session))
      = [''Is there anything else, Ana?'']"
    by code_simp
  have r1: "end_conversation ''t1'' closing_session = enter_stage ''t1'' ''completion'' closing_session"
    using end_conversation_preference[OF ok1 cur1, of "''t1''"] t1 by blast
  have r2: "end_conversation ''t1'' ?c = enter_stage ''t1'' ''goodbye'' ?c"
    using end_conversation_preference[OF ok2 cur2, of "''t1''"] t2 by blast
  have r3: "end_conversation ''t1'' example_session = (Ended, example_session\<lparr>said := [farewell]\<rparr>)"
    using end_conversation_preference[OF ok3 cur3, of "''t1''"] t3 by simp
  show ?thesis
    using ok1 ok3 r1 r2 r3 said1 by simp
qed

text \<open>
  Claim C7 as stated fails in its last case: no state is set to ended.  After
  \<open>end_conversation\<close> has spoken the default closing message, the example session is
  still in the stage \<open>greeting\<close>, and a transition to \<open>billing\<close> is accepted and entered.
\<close>

theorem end_conversation_not_terminal_counterexample:
  "fst (end_conversation ''t1'' example_session) = Ended
   \<and> current_stage_id (snd (end_conversation ''t1'' example_session)) = ''greeting''
   \<and> fst (move_to_next_stage ''t2'' ''billing'' (snd (end_conversation ''t1'' example_session)))
       = Entered
   \<and> current_stage_id (snd (move_to_next_stage ''t2'' ''billing''
         (snd (end_conversation ''t1'' example_session)))) = ''billing''"
  by code_simp

section \<open>Completing the current stage\<close>





section \<open>The current stage stays a stage of the graph under the tools\<close>

text \<open>
  \<^verbatim>\<open>on_enter\<close> on a validated configuration gives a session that is \<open>session_ok\<close>, and
  recording an utterance and the three tools keep it so: the tools call \<open>enter_stage\<close>
  only on stages of the graph.
\<close>

lemma validated_stages_complete:
  assumes "validate_config cfg = Inr ()" and "flow cfg = Some fl" and "stages fl = Some sts"
  shows "list_all (\<lambda>(sid, st). stage_complete sts st) sts
    \<and> (\<exists>start. start_stage fl = Some start \<and> has_key start sts)"
  using assms validate_config_complete[of cfg]
  by (auto simp: structurally_complete_def flow_complete_def split: option.splits)

lemma session_ok_enter:
  "session_ok s \<Longrightarrow> has_key sid (self_stages s) \<Longrightarrow> session_ok (snd (enter_stage now sid s))"
  using enter_stage_frame[of now sid s] by (simp add: session_ok_def)

lemma session_ok_on_enter:
  assumes "has_key (start_stage_id s) (self_stages s)"
    and "list_all (\<lambda>(sid, st). stage_complete (self_stages s) st) (self_stages s)"
  shows "session_ok (snd (on_enter now s))"
proof -
  let ?s0 = "s\<lparr>current_stage_id := start_stage_id s, userdata_stages := self_stages s\<rparr>"
  have "session_ok ?s0"
    using assms by (simp add: session_ok_def)
  then show ?thesis
    using session_ok_enter[of ?s0 "start_stage_id s" now] assms(1)
    by (simp add: on_enter_def)
qed

lemma session_ok_speech:
  "session_ok s \<Longrightarrow> session_ok (on_user_speech_committed now msg s)"
  by (simp add: on_user_speech_committed_def session_ok_def)

lemma session_ok_move:
  assumes "session_ok s"
  shows "session_ok (snd (move_to_next_stage now target s))"
proof -
  have "userdata_stages s = self_stages s"
    using assms by (simp add: session_ok_def)
  then show ?thesis
    using assms session_ok_enter[OF assms, of target now]
    by (auto simp: move_to_next_stage_def session_ok_def split: option.splits sum.splits)
qed

lemma session_ok_complete:
  "session_ok s \<Longrightarrow> session_ok (snd (complete_current_stage now reason s))"
  by (auto simp: complete_current_stage_def session_ok_move split: sum.splits option.splits)

lemma session_ok_end:
  assumes "session_ok s"
  shows "session_ok (snd (end_conversation now s))"
proof -
  have ud: "userdata_stages s = self_stages s"
    using assms by (simp add: session_ok_def)
  have "session_ok (s\<lparr>said := said s @ [farewell]\<rparr>)"
    using assms by (simp add: session_ok_def)
  then show ?thesis
    using assms ud session_ok_move[OF assms] session_ok_enter[OF assms, of "''goodbye''" now]
    by (auto simp: end_conversation_def split: option.splits sum.splits)
qed

end
